theory Spec2Isabelle
  imports Main "HOL-Library.Word" "HOL-Library.Monad_Syntax"
begin

unbundle bit_operations_syntax

section \<open>Bytes, errors and slices\<close>

type_synonym byte = "8 word"

text \<open>
  Go error values. \<open>ErrorString\<close> is what \<open>errors.New\<close> builds; \<open>ErrUnknownMessage\<close> and
  \<open>ErrInvalidHandshake\<close> are the two sentinel values of the wire package that
  \<open>WaitToFinishNegotiation\<close> compares against or returns; \<open>EOF\<close> and \<open>ErrUnexpectedEOF\<close> come
  from \<open>io.ReadFull\<close>; \<open>LibError\<close> is any other error handed back by a collaborator
  (transport, \<open>net\<close>, \<open>strconv\<close>), carrying its message.
\<close>

datatype error =
    ErrorString string
  | LibError string
  | EOF
  | ErrUnexpectedEOF
  | ErrUnknownMessage
  | ErrInvalidHandshake

fun Error :: "error \<Rightarrow> string" where
  "Error (ErrorString s) = s"
| "Error (LibError s) = s"
| "Error EOF = ''EOF''"
| "Error ErrUnexpectedEOF = ''unexpected EOF''"
| "Error ErrUnknownMessage = ''received unknown message''"
| "Error ErrInvalidHandshake = ''invalid message during handshake''"

text \<open>
  A Go byte slice that starts at the beginning of its backing array: \<open>arr\<close> is the backing
  array (its length is the capacity), \<open>slen\<close> the length of the slice. Every operation that
  panics in Go on a bound violation returns \<open>None\<close> here.
\<close>

record slice =
  arr :: "byte list"
  slen :: nat

definition cap :: "slice \<Rightarrow> nat" where
  "cap b = length (arr b)"

text \<open>\<open>make([]byte, n)\<close>\<close>

definition make_bytes :: "nat \<Rightarrow> slice" where
  "make_bytes n = \<lparr>arr = replicate n 0, slen = n\<rparr>"

text \<open>\<open>b[:n]\<close>: legal up to the capacity, panics beyond it.\<close>

definition reslice :: "slice \<Rightarrow> nat \<Rightarrow> slice option" where
  "reslice b n = (if n \<le> cap b then Some (b\<lparr>slen := n\<rparr>) else None)"

text \<open>\<open>b[i] = v\<close>: legal below the length.\<close>

definition set_index :: "slice \<Rightarrow> nat \<Rightarrow> byte \<Rightarrow> slice option" where
  "set_index b i v = (if i < slen b then Some (b\<lparr>arr := (arr b)[i := v]\<rparr>) else None)"

text \<open>\<open>b[i]\<close> read.\<close>

definition get_index :: "slice \<Rightarrow> nat \<Rightarrow> byte option" where
  "get_index b i = (if i < slen b then Some (arr b ! i) else None)"

text \<open>The bytes a slice denotes (what \<open>w.Write(b)\<close> is handed).\<close>

definition contents :: "slice \<Rightarrow> byte list" where
  "contents b = take (slen b) (arr b)"

section \<open>encoding/binary byte orders\<close>

datatype ByteOrder = LittleEndian | BigEndian

text \<open>The \<open>n\<close> low bytes of a word, least significant first.\<close>

definition le_bytes :: "nat \<Rightarrow> 'a::len word \<Rightarrow> byte list" where
  "le_bytes n v = map (\<lambda>i. ucast (drop_bit (8 * i) v)) [0..<n]"

definition order_bytes :: "ByteOrder \<Rightarrow> nat \<Rightarrow> 'a::len word \<Rightarrow> byte list" where
  "order_bytes order n v = (case order of LittleEndian \<Rightarrow> le_bytes n v | BigEndian \<Rightarrow> rev (le_bytes n v))"

text \<open>
  \<open>order.PutUintN(b[lo:hi], v)\<close> for an \<open>n\<close>-byte integer: the slice expression needs
  \<open>lo \<le> hi \<le> cap b\<close>, the store needs \<open>n \<le> hi - lo\<close> (the library's bounds check
  \<open>_ = b[n-1]\<close>); the \<open>n\<close> bytes land in the shared backing array at \<open>lo\<close>.
\<close>

definition put_at :: "ByteOrder \<Rightarrow> nat \<Rightarrow> slice \<Rightarrow> nat \<Rightarrow> nat \<Rightarrow> 'a::len word \<Rightarrow> slice option" where
  "put_at order n b lo hi v =
     (if lo \<le> hi \<and> hi \<le> cap b \<and> n \<le> hi - lo
      then Some (b\<lparr>arr := take lo (arr b) @ order_bytes order n v @ drop (lo + n) (arr b)\<rparr>)
      else None)"

definition PutUint16_bo :: "ByteOrder \<Rightarrow> slice \<Rightarrow> nat \<Rightarrow> nat \<Rightarrow> 16 word \<Rightarrow> slice option" where
  "PutUint16_bo order b lo hi v = put_at order 2 b lo hi v"

definition PutUint32_bo :: "ByteOrder \<Rightarrow> slice \<Rightarrow> nat \<Rightarrow> nat \<Rightarrow> 32 word \<Rightarrow> slice option" where
  "PutUint32_bo order b lo hi v = put_at order 4 b lo hi v"

definition PutUint64_bo :: "ByteOrder \<Rightarrow> slice \<Rightarrow> nat \<Rightarrow> nat \<Rightarrow> 64 word \<Rightarrow> slice option" where
  "PutUint64_bo order b lo hi v = put_at order 8 b lo hi v"

text \<open>The value of a byte string read least significant byte first.\<close>

fun le_value :: "byte list \<Rightarrow> 'a::len word" where
  "le_value [] = 0"
| "le_value (x # xs) = ucast x OR push_bit 8 (le_value xs)"

text \<open>\<open>order.UintN(b)\<close> for an \<open>n\<close>-byte integer: panics when \<open>b\<close> is shorter than \<open>n\<close>.\<close>

definition get_uint :: "ByteOrder \<Rightarrow> nat \<Rightarrow> slice \<Rightarrow> 'a::len word option" where
  "get_uint order n b =
     (if n \<le> slen b
      then Some (case order of LittleEndian \<Rightarrow> le_value (take n (arr b))
                             | BigEndian \<Rightarrow> le_value (rev (take n (arr b))))
      else None)"

section \<open>io.Writer and io.Reader\<close>

text \<open>
  A writer is the byte stream it has accepted so far, together with a fault plan:
  \<open>budget = None\<close> accepts every \<open>Write\<close> call (a \<open>bytes.Buffer\<close>, a healthy connection),
  \<open>budget = Some n\<close> accepts \<open>n\<close> more calls and then fails each call with \<open>fault\<close>,
  writing nothing.
\<close>

record writer =
  written :: "byte list"
  budget :: "nat option"
  fault :: error

definition Write :: "writer \<Rightarrow> byte list \<Rightarrow> writer \<times> error option" where
  "Write w bs =
     (case budget w of
        None \<Rightarrow> (w\<lparr>written := written w @ bs\<rparr>, None)
      | Some 0 \<Rightarrow> (w, Some (fault w))
      | Some (Suc n) \<Rightarrow> (w\<lparr>written := written w @ bs, budget := Some n\<rparr>, None))"

text \<open>\<open>var bw bytes.Buffer\<close>\<close>

definition new_Buffer :: writer where
  "new_Buffer = \<lparr>written = [], budget = None, fault = EOF\<rparr>"

text \<open>
  A reader is the bytes still to come. \<open>io.ReadFull(r, buf)\<close> fills \<open>buf\<close> or reports
  \<open>EOF\<close> (nothing read) or \<open>ErrUnexpectedEOF\<close> (some bytes read).
\<close>

type_synonym reader = "byte list"

definition ReadFull :: "reader \<Rightarrow> slice \<Rightarrow> reader \<times> slice \<times> error option" where
  "ReadFull r buf =
     (if slen buf \<le> length r
      then (drop (slen buf) r, buf\<lparr>arr := take (slen buf) r @ drop (slen buf) (arr buf)\<rparr>, None)
      else ([], buf\<lparr>arr := r @ drop (length r) (arr buf)\<rparr>,
            Some (if r = [] then EOF else ErrUnexpectedEOF)))"

section \<open>common: the scratch buffer free list\<close>

text \<open>
  \<open>BinaryFreeList\<close> is a buffered channel of byte slices; the model is the queue of
  buffered slices, oldest first. The one free list of the program, \<open>binarySerializer\<close>, is made
  with room for \<open>binaryFreeListMaxItems\<close> slices and starts empty.
\<close>

type_synonym BinaryFreeList = "slice list"

definition binaryFreeListMaxItems :: nat where
  "binaryFreeListMaxItems = 1024"

definition binarySerializer :: BinaryFreeList where
  "binarySerializer = []"

definition Borrow :: "BinaryFreeList \<Rightarrow> (slice \<times> BinaryFreeList) option" where
  "Borrow l =
     (case l of
        buf # rest \<Rightarrow> do { b \<leftarrow> reslice buf 8; Some (b, rest) }
      | [] \<Rightarrow> do { b \<leftarrow> reslice (make_bytes 8) 8; Some (b, []) })"

definition Return :: "BinaryFreeList \<Rightarrow> slice \<Rightarrow> BinaryFreeList" where
  "Return l buf = (if length l < binaryFreeListMaxItems then l @ [buf] else l)"

text \<open>
  The readers and writers of fixed-width integers. Each result is \<open>None\<close> when the Go code
  would panic, and otherwise the free list and stream after the call with the returned values.
  The deferred \<open>Return\<close> runs last, with the slice as it was when \<open>defer\<close> was executed and
  the backing array as the body left it.
\<close>

definition Uint8 :: "BinaryFreeList \<Rightarrow> reader \<Rightarrow> (BinaryFreeList \<times> reader \<times> byte \<times> error option) option" where
  "Uint8 l r = do {
     (b, l1) \<leftarrow> Borrow l;
     buf \<leftarrow> reslice b 1;
     (let (r', buf', err) = ReadFull r buf in
      case err of
        Some e \<Rightarrow> Some (Return l1 buf', r', 0, Some e)
      | None \<Rightarrow> do { rv \<leftarrow> get_index buf' 0; Some (Return l1 buf', r', rv, None) })
   }"

definition Uint16 :: "BinaryFreeList \<Rightarrow> reader \<Rightarrow> ByteOrder \<Rightarrow> (BinaryFreeList \<times> reader \<times> 16 word \<times> error option) option" where
  "Uint16 l r byteOrder = do {
     (b, l1) \<leftarrow> Borrow l;
     buf \<leftarrow> reslice b 2;
     (let (r', buf', err) = ReadFull r buf in
      case err of
        Some e \<Rightarrow> Some (Return l1 buf', r', 0, Some e)
      | None \<Rightarrow> do { rv \<leftarrow> get_uint byteOrder 2 buf'; Some (Return l1 buf', r', rv, None) })
   }"

definition Uint32 :: "BinaryFreeList \<Rightarrow> reader \<Rightarrow> ByteOrder \<Rightarrow> (BinaryFreeList \<times> reader \<times> 32 word \<times> error option) option" where
  "Uint32 l r byteOrder = do {
     (b, l1) \<leftarrow> Borrow l;
     buf \<leftarrow> reslice b 4;
     (let (r', buf', err) = ReadFull r buf in
      case err of
        Some e \<Rightarrow> Some (Return l1 buf', r', 0, Some e)
      | None \<Rightarrow> do { rv \<leftarrow> get_uint byteOrder 4 buf'; Some (Return l1 buf', r', rv, None) })
   }"

definition Uint64 :: "BinaryFreeList \<Rightarrow> reader \<Rightarrow> ByteOrder \<Rightarrow> (BinaryFreeList \<times> reader \<times> 64 word \<times> error option) option" where
  "Uint64 l r byteOrder = do {
     (b, l1) \<leftarrow> Borrow l;
     buf \<leftarrow> reslice b 8;
     (let (r', buf', err) = ReadFull r buf in
      case err of
        Some e \<Rightarrow> Some (Return l1 buf', r', 0, Some e)
      | None \<Rightarrow> do { rv \<leftarrow> get_uint byteOrder 8 buf'; Some (Return l1 buf', r', rv, None) })
   }"

definition PutUint8 :: "BinaryFreeList \<Rightarrow> writer \<Rightarrow> byte \<Rightarrow> (BinaryFreeList \<times> writer \<times> error option) option" where
  "PutUint8 l w val = do {
     (b, l1) \<leftarrow> Borrow l;
     buf \<leftarrow> reslice b 1;
     buf' \<leftarrow> set_index buf 0 val;
     (let (w', err) = Write w (contents buf') in Some (Return l1 buf', w', err))
   }"

definition PutUint16 :: "BinaryFreeList \<Rightarrow> writer \<Rightarrow> ByteOrder \<Rightarrow> 16 word \<Rightarrow> (BinaryFreeList \<times> writer \<times> error option) option" where
  "PutUint16 l w byteOrder val = do {
     (b, l1) \<leftarrow> Borrow l;
     buf \<leftarrow> reslice b 2;
     buf' \<leftarrow> PutUint16_bo byteOrder buf 0 (slen buf) val;
     (let (w', err) = Write w (contents buf') in Some (Return l1 buf', w', err))
   }"

definition PutUint32 :: "BinaryFreeList \<Rightarrow> writer \<Rightarrow> ByteOrder \<Rightarrow> 32 word \<Rightarrow> (BinaryFreeList \<times> writer \<times> error option) option" where
  "PutUint32 l w byteOrder val = do {
     (b, l1) \<leftarrow> Borrow l;
     buf \<leftarrow> reslice b 4;
     buf' \<leftarrow> PutUint32_bo byteOrder buf 0 (slen buf) val;
     (let (w', err) = Write w (contents buf') in Some (Return l1 buf', w', err))
   }"

definition PutUint64 :: "BinaryFreeList \<Rightarrow> writer \<Rightarrow> ByteOrder \<Rightarrow> 64 word \<Rightarrow> (BinaryFreeList \<times> writer \<times> error option) option" where
  "PutUint64 l w byteOrder val = do {
     (b, l1) \<leftarrow> Borrow l;
     buf \<leftarrow> reslice b 8;
     buf' \<leftarrow> PutUint64_bo byteOrder buf 0 (slen buf) val;
     (let (w', err) = Write w (contents buf') in Some (Return l1 buf', w', err))
   }"

section \<open>message: elements, addresses, variable-length integers and strings\<close>

type_synonym MessageEncoding = "32 word"

definition WitnessEncoding :: MessageEncoding where
  "WitnessEncoding = 2"

definition CommandSize :: nat where
  "CommandSize = 12"

definition MessageHeaderSize :: nat where
  "MessageHeaderSize = 24"

text \<open>\<open>fmt\<close>'s decimal rendering of a non-negative integer (\<open>%d\<close>, \<open>%v\<close>).\<close>

fun string_of_nat :: "nat \<Rightarrow> string" where
  "string_of_nat n =
     (if n < 10 then [char_of (48 + n)]
      else string_of_nat (n div 10) @ [char_of (48 + n mod 10)])"

declare string_of_nat.simps [simp del]

text \<open>\<open>[]byte(str)\<close>\<close>

definition bytes_of_string :: "string \<Rightarrow> byte list" where
  "bytes_of_string str = map of_char str"

text \<open>\<open>copy(dst, src)\<close> on a whole array or slice \<open>dst\<close>: the result is the new \<open>dst\<close>.\<close>

definition copy_bytes :: "byte list \<Rightarrow> byte list \<Rightarrow> byte list" where
  "copy_bytes dst src = take (length dst) src @ drop (length src) dst"

text \<open>
  The values \<open>writeElement\<close> distinguishes in its type switch, one constructor per case of the
  switch, in the order of the source. Fixed-size byte arrays are byte lists. Values of any other
  type, which the switch leaves to \<open>binary.Write\<close>, are not among the elements the program
  writes and are left out.
\<close>

datatype element =
    El_int32 "32 word"
  | El_uint32 "32 word"
  | El_int64 "64 word"
  | El_uint64 "64 word"
  | El_bool bool
  | El_checksum "byte list"
  | El_command "byte list"
  | El_ip "byte list"
  | El_Hash "byte list"
  | El_ServiceFlag "64 word"
  | El_InvType "32 word"
  | El_BitcoinNet "32 word"
  | El_BloomUpdateType byte
  | El_RejectCode byte

definition write_array :: "BinaryFreeList \<Rightarrow> writer \<Rightarrow> byte list \<Rightarrow> (BinaryFreeList \<times> writer \<times> error option) option" where
  "write_array l w e = (let (w', err) = Write w e in Some (l, w', err))"

fun writeElement :: "BinaryFreeList \<Rightarrow> writer \<Rightarrow> element \<Rightarrow> (BinaryFreeList \<times> writer \<times> error option) option" where
  "writeElement l w (El_int32 e) = PutUint32 l w LittleEndian e"
| "writeElement l w (El_uint32 e) = PutUint32 l w LittleEndian e"
| "writeElement l w (El_int64 e) = PutUint64 l w LittleEndian e"
| "writeElement l w (El_uint64 e) = PutUint64 l w LittleEndian e"
| "writeElement l w (El_bool e) = (if e then PutUint8 l w 0x01 else PutUint8 l w 0x00)"
| "writeElement l w (El_checksum e) = write_array l w e"
| "writeElement l w (El_command e) = write_array l w e"
| "writeElement l w (El_ip e) = write_array l w e"
| "writeElement l w (El_Hash e) = write_array l w e"
| "writeElement l w (El_ServiceFlag e) = PutUint64 l w LittleEndian e"
| "writeElement l w (El_InvType e) = PutUint32 l w LittleEndian e"
| "writeElement l w (El_BitcoinNet e) = PutUint32 l w LittleEndian e"
| "writeElement l w (El_BloomUpdateType e) = PutUint8 l w e"
| "writeElement l w (El_RejectCode e) = PutUint8 l w e"

text \<open>
  Go's \<open>err := f(...); if err != nil { return err }\<close> followed by the rest of the body:
  a panic or an error of the first step ends the call, otherwise the rest runs on the
  free list and stream the first step left.
\<close>

definition and_then ::
  "(BinaryFreeList \<times> writer \<times> error option) option
   \<Rightarrow> (BinaryFreeList \<Rightarrow> writer \<Rightarrow> (BinaryFreeList \<times> writer \<times> error option) option)
   \<Rightarrow> (BinaryFreeList \<times> writer \<times> error option) option" where
  "and_then m f =
     (case m of
        None \<Rightarrow> None
      | Some (l, w, Some e) \<Rightarrow> Some (l, w, Some e)
      | Some (l, w, None) \<Rightarrow> f l w)"

fun writeElements :: "BinaryFreeList \<Rightarrow> writer \<Rightarrow> element list \<Rightarrow> (BinaryFreeList \<times> writer \<times> error option) option" where
  "writeElements l w [] = Some (l, w, None)"
| "writeElements l w (element # elements) =
     (case writeElement l w element of
        None \<Rightarrow> None
      | Some (l1, w1, Some e) \<Rightarrow> Some (l1, w1, Some e)
      | Some (l1, w1, None) \<Rightarrow> writeElements l1 w1 elements)"

record NetAddress =
  na_Timestamp :: "64 word"
  na_Services :: "64 word"
  na_IP :: "byte list option"
  na_Port :: "16 word"

text \<open>The zero value \<open>common.NetAddress{}\<close>.\<close>

definition NetAddress_zero :: NetAddress where
  "NetAddress_zero = \<lparr>na_Timestamp = 0, na_Services = 0, na_IP = None, na_Port = 0\<rparr>"

text \<open>
  \<open>net.IP.To16\<close> of the standard library: a 4-byte address becomes its IPv4-mapped IPv6
  form, a 16-byte address is itself, anything else is nil (here the empty list).
\<close>

definition v4InV6Prefix :: "byte list" where
  "v4InV6Prefix = [0, 0, 0, 0, 0, 0, 0, 0, 0, 0, 0xff, 0xff]"

definition To16 :: "byte list \<Rightarrow> byte list" where
  "To16 ip = (if length ip = 4 then v4InV6Prefix @ ip else if length ip = 16 then ip else [])"

definition writeNetAddressBuf :: "writer \<Rightarrow> 32 word \<Rightarrow> NetAddress \<Rightarrow> bool \<Rightarrow> slice \<Rightarrow> (writer \<times> slice \<times> error option) option" where
  "writeNetAddressBuf w pver na ts buf = do {
     buf1 \<leftarrow> PutUint64_bo LittleEndian buf 0 (slen buf) (na_Services na);
     (let (w1, err1) = Write w (contents buf1) in
      case err1 of
        Some e \<Rightarrow> Some (w1, buf1, Some e)
      | None \<Rightarrow>
         (let ip = (case na_IP na of
                      None \<Rightarrow> replicate 16 0
                    | Some a \<Rightarrow> copy_bytes (replicate 16 0) (To16 a));
              (w2, err2) = Write w1 ip in
          case err2 of
            Some e \<Rightarrow> Some (w2, buf1, Some e)
          | None \<Rightarrow> do {
              buf2 \<leftarrow> PutUint16_bo BigEndian buf1 0 2 (na_Port na);
              b \<leftarrow> reslice buf2 2;
              (let (w3, err3) = Write w2 (contents b) in Some (w3, buf2, err3))
            }))
   }"

definition WriteVarIntBuf :: "writer \<Rightarrow> 32 word \<Rightarrow> 64 word \<Rightarrow> slice \<Rightarrow> (writer \<times> slice \<times> error option) option" where
  "WriteVarIntBuf w pver val buf =
     (if val < 0xfd then do {
        buf1 \<leftarrow> set_index buf 0 (ucast val);
        b \<leftarrow> reslice buf1 1;
        (let (w1, err) = Write w (contents b) in Some (w1, buf1, err))
      }
      else if val \<le> 0xffff then do {
        buf1 \<leftarrow> set_index buf 0 0xfd;
        buf2 \<leftarrow> PutUint16_bo LittleEndian buf1 1 3 (ucast val);
        b \<leftarrow> reslice buf2 3;
        (let (w1, err) = Write w (contents b) in Some (w1, buf2, err))
      }
      else if val \<le> 0xffffffff then do {
        buf1 \<leftarrow> set_index buf 0 0xfe;
        buf2 \<leftarrow> PutUint32_bo LittleEndian buf1 1 5 (ucast val);
        b \<leftarrow> reslice buf2 5;
        (let (w1, err) = Write w (contents b) in Some (w1, buf2, err))
      }
      else do {
        buf1 \<leftarrow> set_index buf 0 0xff;
        b \<leftarrow> reslice buf1 1;
        (let (w1, err1) = Write w (contents b) in
         case err1 of
           Some e \<Rightarrow> Some (w1, buf1, Some e)
         | None \<Rightarrow> do {
             buf2 \<leftarrow> PutUint64_bo LittleEndian buf1 0 (slen buf1) val;
             (let (w2, err2) = Write w1 (contents buf2) in Some (w2, buf2, err2))
           })
      })"

definition writeVarStringBuf :: "writer \<Rightarrow> 32 word \<Rightarrow> string \<Rightarrow> slice \<Rightarrow> (writer \<times> slice \<times> error option) option" where
  "writeVarStringBuf w pver str buf = do {
     (w1, buf1, err) \<leftarrow> WriteVarIntBuf w pver (of_nat (length str)) buf;
     (case err of
        Some e \<Rightarrow> Some (w1, buf1, Some e)
      | None \<Rightarrow> (let (w2, err2) = Write w1 (bytes_of_string str) in Some (w2, buf1, err2)))
   }"

definition writeNetAddress :: "BinaryFreeList \<Rightarrow> writer \<Rightarrow> 32 word \<Rightarrow> NetAddress \<Rightarrow> bool \<Rightarrow> (BinaryFreeList \<times> writer \<times> error option) option" where
  "writeNetAddress l w pver na ts = do {
     (buf, l1) \<leftarrow> Borrow l;
     (w1, buf1, err) \<leftarrow> writeNetAddressBuf w pver na ts buf;
     Some (Return l1 buf1, w1, err)
   }"

definition WriteVarString :: "BinaryFreeList \<Rightarrow> writer \<Rightarrow> 32 word \<Rightarrow> string \<Rightarrow> (BinaryFreeList \<times> writer \<times> error option) option" where
  "WriteVarString l w pver str = do {
     (buf, l1) \<leftarrow> Borrow l;
     (w1, buf1, err) \<leftarrow> writeVarStringBuf w pver str buf;
     Some (Return l1 buf1, w1, err)
   }"

section \<open>message: the version and verack messages, framing\<close>

definition CmdVerAck :: string where
  "CmdVerAck = ''verack''"

definition CmdVersion :: string where
  "CmdVersion = ''version''"

text \<open>\<open>Timestamp\<close> is a \<open>time.Time\<close> read only through \<open>Unix()\<close>: the model keeps those seconds.\<close>

record MsgVersion =
  ProtocolVersion :: "32 word"
  Services :: "64 word"
  Timestamp :: "64 word"
  AddrYou :: NetAddress
  AddrMe :: NetAddress
  Nonce :: "64 word"
  UserAgent :: string
  LastBlock :: "32 word"
  DisableRelayTx :: bool

definition MsgVersion_BtcEncode ::
  "MsgVersion \<Rightarrow> BinaryFreeList \<Rightarrow> writer \<Rightarrow> 32 word \<Rightarrow> MessageEncoding \<Rightarrow> (BinaryFreeList \<times> writer \<times> error option) option" where
  "MsgVersion_BtcEncode msg l w pver enc =
     and_then (writeElements l w [El_int32 (ProtocolVersion msg), El_ServiceFlag (Services msg), El_int64 (Timestamp msg)])
       (\<lambda>l w. and_then (writeNetAddress l w pver (AddrYou msg) False)
         (\<lambda>l w. and_then (writeNetAddress l w pver (AddrMe msg) False)
           (\<lambda>l w. and_then (writeElement l w (El_uint64 (Nonce msg)))
             (\<lambda>l w. and_then (WriteVarString l w pver (UserAgent msg))
               (\<lambda>l w. and_then (writeElement l w (El_int32 (LastBlock msg)))
                 (\<lambda>l w. Some (l, w, None)))))))"

definition MsgVerAck_BtcEncode ::
  "BinaryFreeList \<Rightarrow> writer \<Rightarrow> 32 word \<Rightarrow> MessageEncoding \<Rightarrow> (BinaryFreeList \<times> writer \<times> error option) option" where
  "MsgVerAck_BtcEncode l w pver enc = Some (l, w, None)"

text \<open>The \<open>Message\<close> interface: a value is its two methods.\<close>

record Message =
  Command :: string
  BtcEncode :: "BinaryFreeList \<Rightarrow> writer \<Rightarrow> 32 word \<Rightarrow> MessageEncoding \<Rightarrow> (BinaryFreeList \<times> writer \<times> error option) option"

definition MsgVersion_Message :: "MsgVersion \<Rightarrow> Message" where
  "MsgVersion_Message msg = \<lparr>Command = CmdVersion, BtcEncode = MsgVersion_BtcEncode msg\<rparr>"

definition MsgVerAck_Message :: Message where
  "MsgVerAck_Message = \<lparr>Command = CmdVerAck, BtcEncode = MsgVerAck_BtcEncode\<rparr>"

text \<open>
  \<open>WriteMessageWithEncodingN\<close>. The hash \<open>chainhash.DoubleHashB\<close> belongs to a library outside
  the repository and is the first parameter; \<open>h[0:4]\<close> panics on a result shorter than four
  bytes. \<open>uint32(lenp)\<close> keeps the low 32 bits of the length.
\<close>

definition WriteMessageWithEncodingN ::
  "(byte list \<Rightarrow> byte list) \<Rightarrow> BinaryFreeList \<Rightarrow> writer \<Rightarrow> Message \<Rightarrow> 32 word \<Rightarrow> 32 word \<Rightarrow> MessageEncoding
   \<Rightarrow> (BinaryFreeList \<times> writer \<times> error option) option" where
  "WriteMessageWithEncodingN DoubleHashB l w msg pver btcnet encoding =
     (let cmd = Command msg in
      if length cmd > CommandSize
      then Some (l, w, Some (ErrorString (''command ['' @ cmd @ ''] is too long [max '' @ string_of_nat CommandSize @ '']'')))
      else
        (let command = copy_bytes (replicate CommandSize 0) (bytes_of_string cmd) in
         case BtcEncode msg l new_Buffer pver encoding of
           None \<Rightarrow> None
         | Some (l1, bw, Some e) \<Rightarrow> Some (l1, w, Some e)
         | Some (l1, bw, None) \<Rightarrow>
            (let payload = written bw;
                 lenp = length payload;
                 hdr_length = (of_nat lenp :: 32 word);
                 h = DoubleHashB payload
             in if length h < 4 then None
                else
                  (let hdr_checksum = copy_bytes (replicate 4 0) (take 4 h) in
                   case writeElements l1 new_Buffer
                          [El_BitcoinNet btcnet, El_command command, El_uint32 hdr_length, El_checksum hdr_checksum] of
                     None \<Rightarrow> None
                   | Some (l2, hw, _) \<Rightarrow>
                      (let (w1, err1) = Write w (written hw) in
                       case err1 of
                         Some e \<Rightarrow> Some (l2, w1, Some e)
                       | None \<Rightarrow>
                          if length payload > 0
                          then (let (w2, err2) = Write w1 payload in Some (l2, w2, err2))
                          else Some (l2, w1, None))))))"

section \<open>peer: address validation\<close>

text \<open>
  Regular expressions with their derivative matcher. \<open>Sym p\<close> matches one character
  satisfying \<open>p\<close>; the counted repetition \<open>x{m,n}\<close> and \<open>x+\<close> are built from the other
  operators.
\<close>

datatype regex =
    NoMatch
  | EmptyMatch
  | Sym "char \<Rightarrow> bool"
  | Alternate regex regex
  | Concat regex regex
  | Star regex

definition Quest :: "regex \<Rightarrow> regex" where
  "Quest r = Alternate EmptyMatch r"

definition Plus :: "regex \<Rightarrow> regex" where
  "Plus r = Concat r (Star r)"

fun Repeat_upto :: "nat \<Rightarrow> regex \<Rightarrow> regex" where
  "Repeat_upto 0 r = EmptyMatch"
| "Repeat_upto (Suc n) r = Quest (Concat r (Repeat_upto n r))"

fun Repeat :: "nat \<Rightarrow> nat \<Rightarrow> regex \<Rightarrow> regex" where
  "Repeat 0 n r = Repeat_upto n r"
| "Repeat (Suc m) n r = Concat r (Repeat m (n - 1) r)"

fun nullable :: "regex \<Rightarrow> bool" where
  "nullable NoMatch = False"
| "nullable EmptyMatch = True"
| "nullable (Sym p) = False"
| "nullable (Alternate r s) = (nullable r \<or> nullable s)"
| "nullable (Concat r s) = (nullable r \<and> nullable s)"
| "nullable (Star r) = True"

fun deriv :: "char \<Rightarrow> regex \<Rightarrow> regex" where
  "deriv c NoMatch = NoMatch"
| "deriv c EmptyMatch = NoMatch"
| "deriv c (Sym p) = (if p c then EmptyMatch else NoMatch)"
| "deriv c (Alternate r s) = Alternate (deriv c r) (deriv c s)"
| "deriv c (Concat r s) =
     (if nullable r then Alternate (Concat (deriv c r) s) (deriv c s) else Concat (deriv c r) s)"
| "deriv c (Star r) = Concat (deriv c r) (Star r)"

fun matches :: "regex \<Rightarrow> string \<Rightarrow> bool" where
  "matches r [] = nullable r"
| "matches r (c # cs) = matches (deriv c r) cs"

text \<open>The language of a regular expression, the reference the matcher is proved against.\<close>

definition conc :: "string set \<Rightarrow> string set \<Rightarrow> string set" where
  "conc A B = {xs @ ys | xs ys. xs \<in> A \<and> ys \<in> B}"

inductive_set star :: "string set \<Rightarrow> string set" for A :: "string set" where
  star_Nil: "[] \<in> star A"
| star_App: "xs \<in> A \<Longrightarrow> ys \<in> star A \<Longrightarrow> xs @ ys \<in> star A"

fun lang :: "regex \<Rightarrow> string set" where
  "lang NoMatch = {}"
| "lang EmptyMatch = {[]}"
| "lang (Sym p) = {[c] | c. p c}"
| "lang (Alternate r s) = lang r \<union> lang s"
| "lang (Concat r s) = conc (lang r) (lang s)"
| "lang (Star r) = star (lang r)"

text \<open>\<open>\d\<close>: an ASCII digit; a literal character.\<close>

definition is_digit :: "char \<Rightarrow> bool" where
  "is_digit c = (c \<in> set ''0123456789'')"

definition Digit :: regex where
  "Digit = Sym is_digit"

definition Lit :: "char \<Rightarrow> regex" where
  "Lit a = Sym (\<lambda>c. c = a)"

text \<open>
  The pattern \<^verbatim>\<open>^\d{1,3}\.\d{1,3}\.\d{1,3}\.\d{1,3}:\d+$\<close> of \<open>handshake\<close>. Between its two
  anchors it is the expression \<open>pattern\<close>; with both anchors present \<open>MatchString\<close>, which
  searches for a match anywhere in the text, holds exactly when the whole text matches.
\<close>

definition pattern :: regex where
  "pattern =
     Concat (Repeat 1 3 Digit) (Concat (Lit CHR ''.'')
    (Concat (Repeat 1 3 Digit) (Concat (Lit CHR ''.'')
    (Concat (Repeat 1 3 Digit) (Concat (Lit CHR ''.'')
    (Concat (Repeat 1 3 Digit) (Concat (Lit CHR '':'')
    (Plus Digit))))))))"

definition MatchString :: "regex \<Rightarrow> string \<Rightarrow> bool" where
  "MatchString regex s = matches regex s"

section \<open>peer: the handshake\<close>

definition HandshakeRetries :: nat where
  "HandshakeRetries = 3"

definition DefaultUserAgent :: string where
  "DefaultUserAgent = ''/btcwire:0.5.0/''"

definition LatestEncoding :: MessageEncoding where
  "LatestEncoding = WitnessEncoding"

text \<open>
  What one attempt finds outside the program: the answers of the dialer, of the connection's
  deadline setter, of \<open>net.SplitHostPort\<close>, \<open>strconv.ParseUint(port, 10, 16)\<close> and
  \<open>net.ParseIP\<close>, the clock, and the hash of the chainhash library. A connection is the
  stream it accepts writes on.
\<close>

record env =
  Dial :: "string \<Rightarrow> error + writer"
  SetWriteDeadline :: "error option"
  SplitHostPort :: "string \<Rightarrow> error + (string \<times> string)"
  ParseUint :: "string \<Rightarrow> error + 64 word"
  ParseIP :: "string \<Rightarrow> byte list option"
  Now_Unix :: "64 word"
  DoubleHashB :: "byte list \<Rightarrow> byte list"

text \<open>The calls on the transport and on standard output, in the order they are made.\<close>

datatype call = Dialed string | DeadlineSet | Closed | Printed string

text \<open>
  One attempt. The result is \<open>None\<close> on a panic, and otherwise the returned pair (an error, or
  the connection), the calls made, and the free list afterwards.
\<close>

definition handshake ::
  "env \<Rightarrow> BinaryFreeList \<Rightarrow> string \<Rightarrow> 32 word \<Rightarrow> 32 word \<Rightarrow> ((error + writer) \<times> call list \<times> BinaryFreeList) option" where
  "handshake world l peerAddress network protocolVersion =
     (if \<not> MatchString pattern peerAddress
      then Some (Inl (ErrorString ''incorrect peer address format''), [], l)
      else
        case Dial world peerAddress of
          Inl err \<Rightarrow> Some (Inl err, [Dialed peerAddress], l)
        | Inr conn \<Rightarrow>
           (case SetWriteDeadline world of
              Some err \<Rightarrow> Some (Inl err, [Dialed peerAddress, DeadlineSet], l)
            | None \<Rightarrow>
               (case SplitHostPort world peerAddress of
                  Inl err \<Rightarrow> Some (Inl err, [Dialed peerAddress, DeadlineSet, Closed], l)
                | Inr (ip, port) \<Rightarrow>
                   (case ParseUint world port of
                      Inl err \<Rightarrow> Some (Inl err, [Dialed peerAddress, DeadlineSet, Closed], l)
                    | Inr portUint64 \<Rightarrow>
                       (let localVerMsg =
                              \<lparr>ProtocolVersion = protocolVersion,
                               Services = 0,
                               Timestamp = Now_Unix world,
                               AddrYou = \<lparr>na_Timestamp = Now_Unix world, na_Services = 0x0,
                                          na_IP = ParseIP world ip, na_Port = ucast portUint64\<rparr>,
                               AddrMe = NetAddress_zero,
                               Nonce = 1,
                               UserAgent = DefaultUserAgent,
                               LastBlock = 0,
                               DisableRelayTx = False\<rparr>
                        in case WriteMessageWithEncodingN (DoubleHashB world) l conn
                                  (MsgVersion_Message localVerMsg) protocolVersion network LatestEncoding of
                             None \<Rightarrow> None
                           | Some (l1, conn1, Some err) \<Rightarrow>
                               Some (Inl err, [Dialed peerAddress, DeadlineSet, Closed], l1)
                           | Some (l1, conn1, None) \<Rightarrow>
                              (case WriteMessageWithEncodingN (DoubleHashB world) l1 conn1
                                      MsgVerAck_Message protocolVersion network LatestEncoding of
                                 None \<Rightarrow> None
                               | Some (l2, conn2, Some err) \<Rightarrow>
                                   Some (Inl err, [Dialed peerAddress, DeadlineSet, Closed], l2)
                               | Some (l2, conn2, None) \<Rightarrow>
                                   Some (Inr conn2, [Dialed peerAddress, DeadlineSet], l2)))))))"

text \<open>
  The retry loop of \<open>Handshake\<close>: \<open>worlds i\<close> is what attempt \<open>i\<close> finds, \<open>err\<close> the error
  variable (nil at first), \<open>calls\<close> the calls made so far. After the loop \<open>err.Error()\<close> on a
  nil error would panic.
\<close>

function Handshake_loop ::
  "(nat \<Rightarrow> env) \<Rightarrow> string \<Rightarrow> 32 word \<Rightarrow> 32 word \<Rightarrow> nat \<Rightarrow> error option \<Rightarrow> call list \<Rightarrow> BinaryFreeList
   \<Rightarrow> ((error + writer) \<times> call list \<times> BinaryFreeList) option" where
  "Handshake_loop worlds peerAddress network protocolVersion i err calls l =
     (if i < HandshakeRetries
      then
        (case handshake (worlds i) l peerAddress network protocolVersion of
           None \<Rightarrow> None
         | Some (Inl e, cs, l1) \<Rightarrow>
             Handshake_loop worlds peerAddress network protocolVersion (i + 1) (Some e)
               (calls @ cs @ [Printed (Error e)]) l1
         | Some (Inr conn, cs, l1) \<Rightarrow> Some (Inr conn, calls @ cs, l1))
      else
        (case err of
           None \<Rightarrow> None
         | Some e \<Rightarrow>
             Some (Inl (ErrorString (''handshake failed after '' @ string_of_nat HandshakeRetries
                                      @ '' retries with the error '' @ Error e)), calls, l)))"
  by pat_completeness auto
termination
  by (relation "measure (\<lambda>(worlds, peerAddress, network, protocolVersion, i, err, calls, l). HandshakeRetries - i)") auto

declare Handshake_loop.simps [simp del]

definition Handshake ::
  "(nat \<Rightarrow> env) \<Rightarrow> BinaryFreeList \<Rightarrow> string \<Rightarrow> 32 word \<Rightarrow> 32 word \<Rightarrow> ((error + writer) \<times> call list \<times> BinaryFreeList) option" where
  "Handshake worlds l peerAddress network protocolVersion =
     Handshake_loop worlds peerAddress network protocolVersion 0 None [] l"

section \<open>checker: waiting for the peer's verack\<close>

text \<open>
  The concrete message types \<open>WaitToFinishNegotiation\<close> switches on; every other recognised
  message is \<open>MsgOther\<close> with its command.
\<close>

datatype wire_Message = MsgSendAddrV2 | MsgVerAck | MsgOther string

text \<open>
  One call of \<open>readMessage\<close>, as the caller sees it: how long the call blocked (in nanoseconds),
  the message (nil when there is none) and the error. A sequence of reads is the list of the
  calls that return; the call after the last one blocks for ever.
\<close>

type_synonym read = "nat \<times> wire_Message option \<times> error option"

definition Second :: nat where
  "Second = 1000000000"

text \<open>
  The goroutine's loop, up to its first send on the channel \<open>verack\<close>: the result is the time
  of that send with the value sent, or \<open>None\<close> when the loop never sends. The caller receives from
  the channel once, so nothing the goroutine does after its first send reaches the caller.
\<close>

fun reader_loop :: "nat \<Rightarrow> read list \<Rightarrow> (nat \<times> error option) option" where
  "reader_loop t [] = None"
| "reader_loop t ((d, remoteMsg, err) # reads) =
     (if err = Some ErrUnknownMessage then reader_loop (t + d) reads
      else if err \<noteq> None then Some (t + d, err)
      else
        (case remoteMsg of
           Some MsgSendAddrV2 \<Rightarrow> reader_loop (t + d) reads
         | Some MsgVerAck \<Rightarrow> Some (t + d, None)
         | _ \<Rightarrow> Some (t + d, Some ErrInvalidHandshake)))"

text \<open>
  The \<open>select\<close>: the value sent wins when it is sent before the timer fires, the timer wins when
  it fires first, and when both are ready at once \<open>select\<close> picks one of the two
  (\<open>pick_verack\<close>).
\<close>

definition WaitToFinishNegotiation :: "bool \<Rightarrow> read list \<Rightarrow> error option" where
  "WaitToFinishNegotiation pick_verack reads =
     (case reader_loop 0 reads of
        None \<Rightarrow> Some (ErrorString ''ack message not received in time'')
      | Some (t, err) \<Rightarrow>
          if t < 1 * Second \<or> (t = 1 * Second \<and> pick_verack) then err
          else Some (ErrorString ''ack message not received in time''))"

section \<open>The free-list invariant\<close>

text \<open>
  Every slice waiting on the free list has capacity 8, and the list holds no more slices than
  the channel has room for. The free list starts empty, and the codec only hands back slices
  it borrowed.
\<close>

definition pool_ok :: "BinaryFreeList \<Rightarrow> bool" where
  "pool_ok l = (length l \<le> binaryFreeListMaxItems \<and> list_all (\<lambda>b. cap b = 8) l)"

section \<open>Wire layouts and example values\<close>

text \<open>
  The byte strings the encoders are proved to emit, and the concrete values the closed
  theorems are evaluated at. \<open>example_hash\<close> stands in for the double hash; \<open>emits res w bs\<close>
  says that a call ended without error, appended \<open>bs\<close> to the stream \<open>w\<close> and left the free
  list's invariant in place.
\<close>

definition IP_layout :: "byte list option \<Rightarrow> byte list" where
  "IP_layout ip = (case ip of None \<Rightarrow> replicate 16 0 | Some a \<Rightarrow> copy_bytes (replicate 16 0) (To16 a))"

definition NetAddress_layout :: "NetAddress \<Rightarrow> byte list" where
  "NetAddress_layout na =
     le_bytes 8 (na_Services na) @ IP_layout (na_IP na) @ [ucast (drop_bit 8 (na_Port na)), ucast (na_Port na)]"

definition VarInt_layout :: "64 word \<Rightarrow> byte list" where
  "VarInt_layout val =
     (if val < 0xfd then [ucast val]
      else if val \<le> 0xffff then 0xfd # le_bytes 2 val
      else if val \<le> 0xffffffff then 0xfe # le_bytes 4 val
      else 0xff # le_bytes 8 val)"

definition MsgVersion_layout :: "MsgVersion \<Rightarrow> byte list" where
  "MsgVersion_layout msg =
     le_bytes 4 (ProtocolVersion msg) @ le_bytes 8 (Services msg) @ le_bytes 8 (Timestamp msg)
     @ NetAddress_layout (AddrYou msg) @ NetAddress_layout (AddrMe msg)
     @ le_bytes 8 (Nonce msg)
     @ VarInt_layout (of_nat (length (UserAgent msg))) @ bytes_of_string (UserAgent msg)
     @ le_bytes 4 (LastBlock msg)"

definition emits :: "(BinaryFreeList \<times> writer \<times> error option) option \<Rightarrow> writer \<Rightarrow> byte list \<Rightarrow> bool" where
  "emits res w bs = (\<exists>l'. pool_ok l' \<and> res = Some (l', w\<lparr>written := written w @ bs\<rparr>, None))"

definition Header_layout :: "32 word \<Rightarrow> string \<Rightarrow> 32 word \<Rightarrow> byte list \<Rightarrow> byte list" where
  "Header_layout btcnet cmd len checksum =
     le_bytes 4 btcnet @ (bytes_of_string cmd @ replicate (12 - length cmd) 0) @ le_bytes 4 len @ checksum"

definition example_hash :: "byte list \<Rightarrow> byte list" where
  "example_hash payload = replicate 32 0"

definition huge_UserAgent :: string where
  "huge_UserAgent = replicate 4294967296 CHR ''a''"

definition example_NetAddress :: NetAddress where
  "example_NetAddress = \<lparr>na_Timestamp = 0x495fab29, na_Services = 1, na_IP = Some [127, 0, 0, 1], na_Port = 8333\<rparr>"

definition example_MsgVersion :: MsgVersion where
  "example_MsgVersion =
     \<lparr>ProtocolVersion = 70016,
      Services = 0,
      Timestamp = 1700000000,
      AddrYou = \<lparr>na_Timestamp = 1700000000, na_Services = 0,
                 na_IP = Some [0, 0, 0, 0, 0, 0, 0, 0, 0, 0, 0xff, 0xff, 127, 0, 0, 1], na_Port = 18555\<rparr>,
      AddrMe = NetAddress_zero,
      Nonce = 1,
      UserAgent = ''/btcwire:0.5.0/'',
      LastBlock = 0,
      DisableRelayTx = True\<rparr>"

definition huge_MsgVersion :: MsgVersion where
  "huge_MsgVersion = example_MsgVersion\<lparr>UserAgent := huge_UserAgent\<rparr>"

section \<open>Example worlds, address shapes and read sequences\<close>

text \<open>
  Worlds for the closed theorems about the handshake: one in which the peer at
  \<open>127.0.0.1:18555\<close> accepts the connection and every write, one in which the dial is refused,
  and one in which the deadline cannot be set.
\<close>

definition world_ok :: env where
  "world_ok =
     \<lparr>Dial = (\<lambda>address. Inr \<lparr>written = [], budget = None, fault = LibError ''write: i/o timeout''\<rparr>),
      SetWriteDeadline = None,
      SplitHostPort = (\<lambda>hostport. Inr (''127.0.0.1'', ''18555'')),
      ParseUint = (\<lambda>port. Inr 18555),
      ParseIP = (\<lambda>ip. Some [0, 0, 0, 0, 0, 0, 0, 0, 0, 0, 0xff, 0xff, 127, 0, 0, 1]),
      Now_Unix = 1700000000,
      DoubleHashB = example_hash\<rparr>"

definition world_refused :: env where
  "world_refused = world_ok\<lparr>Dial := (\<lambda>address. Inl (LibError ''connect: connection refused''))\<rparr>"

definition world_deadline_fails :: env where
  "world_deadline_fails = world_ok\<lparr>SetWriteDeadline := Some (LibError ''use of closed network connection'')\<rparr>"

text \<open>
  The shape \<open>d{1,3}.d{1,3}.d{1,3}.d{1,3}:digits\<close> in words: an octet is one to three decimal
  digits (of any value), a port one or more.
\<close>

definition octet_shape :: "string \<Rightarrow> bool" where
  "octet_shape a = (list_all is_digit a \<and> 1 \<le> length a \<and> length a \<le> 3)"

definition port_shape :: "string \<Rightarrow> bool" where
  "port_shape p = (list_all is_digit p \<and> p \<noteq> [])"

definition address_shape :: "string \<Rightarrow> bool" where
  "address_shape s =
     (\<exists>a b c d p. octet_shape a \<and> octet_shape b \<and> octet_shape c \<and> octet_shape d \<and> port_shape p
        \<and> s = a @ ''.'' @ b @ ''.'' @ c @ ''.'' @ d @ '':'' @ p)"

text \<open>
  Reads the wait loop passes over (an unknown command, a \<open>sendaddrv2\<close> message), and the time a
  sequence of reads takes.
\<close>

definition skipped :: "read \<Rightarrow> bool" where
  "skipped rd = (case rd of (d, remoteMsg, err) \<Rightarrow>
     err = Some ErrUnknownMessage \<or> (err = None \<and> remoteMsg = Some MsgSendAddrV2))"

definition elapsed :: "read list \<Rightarrow> nat" where
  "elapsed reads = sum_list (map fst reads)"

definition timeout_error :: error where
  "timeout_error = ErrorString ''ack message not received in time''"

text \<open>The worlds of three attempts in a row: every dial refused; the first dial refused, then a peer that accepts.\<close>

definition worlds_refused :: "nat \<Rightarrow> env" where
  "worlds_refused i = world_refused"

definition worlds_second_ok :: "nat \<Rightarrow> env" where
  "worlds_second_ok i = (if i = 0 then world_refused else world_ok)"

section \<open>Basic facts about slices, byte orders and streams\<close>

lemma length8_cases:
  assumes "length xs = 8"
  obtains a0 a1 a2 a3 a4 a5 a6 a7 where "xs = [a0, a1, a2, a3, a4, a5, a6, a7]"
  using assms by (auto simp: numeral_eq_Suc length_Suc_conv)

lemma Write_None: "budget w = None \<Longrightarrow> Write w bs = (w\<lparr>written := written w @ bs\<rparr>, None)"
  by (simp add: Write_def)

lemma upt_2: "[0..<2] = [0, 1]"
  by (simp add: upt_rec)

lemma upt_4: "[0..<4] = [0, 1, 2, 3]"
  by (simp add: upt_rec)

lemma upt_8: "[0..<8] = [0, 1, 2, 3, 4, 5, 6, 7]"
  by (simp add: upt_rec)

lemma length_le_bytes [simp]: "length (le_bytes n v) = n"
  by (simp add: le_bytes_def)

lemma length_order_bytes [simp]: "length (order_bytes order n v) = n"
  by (simp add: order_bytes_def split: ByteOrder.splits)

lemma ucast_ucast16: "(ucast (ucast (v :: 64 word) :: 16 word) :: byte) = ucast v"
  by (rule bit_word_eqI) (auto simp: bit_simps)

lemma ucast_ucast32: "(ucast (ucast (v :: 64 word) :: 32 word) :: byte) = ucast v"
  by (rule bit_word_eqI) (auto simp: bit_simps)

lemma ucast_drop_bit_ucast16:
  "n + 8 \<le> 16 \<Longrightarrow> (ucast (drop_bit n (ucast (v :: 64 word) :: 16 word)) :: byte) = ucast (drop_bit n v)"
  by (rule bit_word_eqI) (auto simp: bit_simps)

lemma ucast_drop_bit_ucast32:
  "n + 8 \<le> 32 \<Longrightarrow> (ucast (drop_bit n (ucast (v :: 64 word) :: 32 word)) :: byte) = ucast (drop_bit n v)"
  by (rule bit_word_eqI) (auto simp: bit_simps)

lemma le_bytes_ucast16: "le_bytes 2 (ucast (v :: 64 word) :: 16 word) = le_bytes 2 v"
  by (simp add: le_bytes_def numeral_2_eq_2 ucast_drop_bit_ucast16 ucast_ucast16)

lemma le_bytes_ucast32: "le_bytes 4 (ucast (v :: 64 word) :: 32 word) = le_bytes 4 v"
  by (simp add: le_bytes_def upt_4 ucast_drop_bit_ucast32 ucast_ucast32)

section \<open>The variable-length integer encoder\<close>

lemma WriteVarIntBuf_bytes:
  assumes "slen buf = 8" and "cap buf = 8" and "budget w = None"
  shows "\<exists>buf'. slen buf' = 8 \<and> cap buf' = 8 \<and> WriteVarIntBuf w pver val buf =
     Some (w\<lparr>written := written w @
              (if val < 0xfd then [ucast val]
               else if val \<le> 0xffff then 0xfd # le_bytes 2 val
               else if val \<le> 0xffffffff then 0xfe # le_bytes 4 val
               else 0xff # le_bytes 8 val)\<rparr>, buf', None)"
proof -
  from assms(2) obtain a0 a1 a2 a3 a4 a5 a6 a7 where A: "arr buf = [a0, a1, a2, a3, a4, a5, a6, a7]"
    unfolding cap_def by (rule length8_cases)
  show ?thesis
    using assms(1,3) A
    by (simp add: WriteVarIntBuf_def set_index_def reslice_def PutUint16_bo_def PutUint32_bo_def
        PutUint64_bo_def put_at_def contents_def cap_def Write_None order_bytes_def
        le_bytes_ucast16 le_bytes_ucast32 Write_def)
qed

text \<open>
  C6. On a scratch buffer of eight bytes and a stream that accepts its writes,
  \<open>WriteVarIntBuf\<close> emits, for every 64-bit value: the value as one byte when it is below
  \<open>0xfd\<close>; the marker \<open>0xfd\<close> and the value as two bytes, least significant first, when it is at
  most \<open>0xffff\<close>; the marker \<open>0xfe\<close> and four such bytes when it is at most \<open>0xffffffff\<close>; and the
  marker \<open>0xff\<close> and eight such bytes for every larger value. The call reports no error.
\<close>

theorem WriteVarIntBuf_encoding:
  assumes "slen buf = 8" and "cap buf = 8" and "budget w = None"
  shows "\<exists>buf'. WriteVarIntBuf w pver val buf =
     Some (w\<lparr>written := written w @
              (if val < 0xfd then [ucast val]
               else if val \<le> 0xffff then [0xfd, ucast val, ucast (drop_bit 8 val)]
               else if val \<le> 0xffffffff
                 then [0xfe, ucast val, ucast (drop_bit 8 val), ucast (drop_bit 16 val), ucast (drop_bit 24 val)]
               else [0xff, ucast val, ucast (drop_bit 8 val), ucast (drop_bit 16 val), ucast (drop_bit 24 val),
                     ucast (drop_bit 32 val), ucast (drop_bit 40 val), ucast (drop_bit 48 val),
                     ucast (drop_bit 56 val)])\<rparr>, buf', None)"
proof -
  obtain buf' where "WriteVarIntBuf w pver val buf =
     Some (w\<lparr>written := written w @
              (if val < 0xfd then [ucast val]
               else if val \<le> 0xffff then 0xfd # le_bytes 2 val
               else if val \<le> 0xffffffff then 0xfe # le_bytes 4 val
               else 0xff # le_bytes 8 val)\<rparr>, buf', None)"
    using WriteVarIntBuf_bytes [OF assms] by blast
  then show ?thesis
    by (simp add: le_bytes_def upt_4 upt_8 numeral_2_eq_2)
qed

theorem WriteVarIntBuf_encoding_witness:
  "slen (make_bytes 8) = 8 \<and> cap (make_bytes 8) = 8 \<and> budget new_Buffer = None
   \<and> (\<exists>b. WriteVarIntBuf new_Buffer 70016 0xfc (make_bytes 8) = Some (new_Buffer\<lparr>written := [0xfc]\<rparr>, b, None))
   \<and> (\<exists>b. WriteVarIntBuf new_Buffer 70016 0xfd (make_bytes 8) = Some (new_Buffer\<lparr>written := [0xfd, 0xfd, 0x00]\<rparr>, b, None))
   \<and> (\<exists>b. WriteVarIntBuf new_Buffer 70016 0xffff (make_bytes 8) = Some (new_Buffer\<lparr>written := [0xfd, 0xff, 0xff]\<rparr>, b, None))
   \<and> (\<exists>b. WriteVarIntBuf new_Buffer 70016 0x10000 (make_bytes 8)
          = Some (new_Buffer\<lparr>written := [0xfe, 0x00, 0x00, 0x01, 0x00]\<rparr>, b, None))
   \<and> (\<exists>b. WriteVarIntBuf new_Buffer 70016 0x100000000 (make_bytes 8)
          = Some (new_Buffer\<lparr>written := [0xff, 0, 0, 0, 0, 1, 0, 0, 0]\<rparr>, b, None))"
proof -
  have h: "slen (make_bytes 8) = 8" "cap (make_bytes 8) = 8" "budget new_Buffer = None"
    by (simp_all add: make_bytes_def cap_def new_Buffer_def)
  have w: "written new_Buffer = []"
    by (simp add: new_Buffer_def)
  show ?thesis
    using h w
      WriteVarIntBuf_encoding [OF h, of 70016 "0xfc"]
      WriteVarIntBuf_encoding [OF h, of 70016 "0xfd"]
      WriteVarIntBuf_encoding [OF h, of 70016 "0xffff"]
      WriteVarIntBuf_encoding [OF h, of 70016 "0x10000"]
      WriteVarIntBuf_encoding [OF h, of 70016 "0x100000000"]
    by (elim exE) simp
qed

section \<open>The free list and the encoders\<close>

lemma Borrow_ok:
  assumes "pool_ok l"
  shows "\<exists>b l'. Borrow l = Some (b, l') \<and> slen b = 8 \<and> cap b = 8 \<and> pool_ok l'
           \<and> (case l of [] \<Rightarrow> b = make_bytes 8 \<and> l' = [] | x # xs \<Rightarrow> arr b = arr x \<and> l' = xs)"
  using assms
  by (cases l) (auto simp: Borrow_def pool_ok_def reslice_def cap_def make_bytes_def)

lemma Return_ok: "pool_ok l \<Longrightarrow> cap b = 8 \<Longrightarrow> pool_ok (Return l b)"
  by (auto simp: Return_def pool_ok_def)

lemma Return_full: "length l = binaryFreeListMaxItems \<Longrightarrow> Return l b = l"
  by (simp add: Return_def)

lemma PutUint8_ok:
  assumes "pool_ok l"
  shows "\<exists>l'. pool_ok l' \<and> PutUint8 l w v = Some (l', Write w [v])"
proof -
  obtain b l1 where B: "Borrow l = Some (b, l1)" "slen b = 8" "cap b = 8" "pool_ok l1"
    using Borrow_ok[OF assms] by blast
  from B(3) obtain a0 a1 a2 a3 a4 a5 a6 a7 where A: "arr b = [a0, a1, a2, a3, a4, a5, a6, a7]"
    unfolding cap_def by (rule length8_cases)
  show ?thesis using B A
    by (auto simp: PutUint8_def reslice_def set_index_def contents_def cap_def split: prod.splits intro!: Return_ok)
qed

lemma put_whole:
  assumes "cap b = 8" "n \<le> 8"
  shows "\<exists>b'. put_at order n (b\<lparr>slen := n\<rparr>) 0 n v = Some b' \<and> cap b' = 8 \<and> slen b' = n \<and> contents b' = order_bytes order n v"
  using assms by (auto simp: put_at_def cap_def contents_def)

lemma PutUint16_ok:
  assumes "pool_ok l"
  shows "\<exists>l'. pool_ok l' \<and> PutUint16 l w order v = Some (l', Write w (order_bytes order 2 v))"
proof -
  obtain b l1 where B: "Borrow l = Some (b, l1)" "slen b = 8" "cap b = 8" "pool_ok l1"
    using Borrow_ok[OF assms] by blast
  obtain b' where P: "put_at order 2 (b\<lparr>slen := 2\<rparr>) 0 2 v = Some b'" "cap b' = 8" "contents b' = order_bytes order 2 v"
    using put_whole[OF B(3), of 2 order v] by auto
  show ?thesis using B P
    by (auto simp: PutUint16_def reslice_def PutUint16_bo_def  split: prod.splits intro!: Return_ok)
qed

lemma PutUint32_ok:
  assumes "pool_ok l"
  shows "\<exists>l'. pool_ok l' \<and> PutUint32 l w order v = Some (l', Write w (order_bytes order 4 v))"
proof -
  obtain b l1 where B: "Borrow l = Some (b, l1)" "slen b = 8" "cap b = 8" "pool_ok l1"
    using Borrow_ok[OF assms] by blast
  obtain b' where P: "put_at order 4 (b\<lparr>slen := 4\<rparr>) 0 4 v = Some b'" "cap b' = 8" "contents b' = order_bytes order 4 v"
    using put_whole[OF B(3), of 4 order v] by auto
  show ?thesis using B P
    by (auto simp: PutUint32_def reslice_def PutUint32_bo_def  split: prod.splits intro!: Return_ok)
qed

lemma PutUint64_ok:
  assumes "pool_ok l"
  shows "\<exists>l'. pool_ok l' \<and> PutUint64 l w order v = Some (l', Write w (order_bytes order 8 v))"
proof -
  obtain b l1 where B: "Borrow l = Some (b, l1)" "slen b = 8" "cap b = 8" "pool_ok l1"
    using Borrow_ok[OF assms] by blast
  obtain b' where P: "put_at order 8 (b\<lparr>slen := 8\<rparr>) 0 8 v = Some b'" "cap b' = 8" "contents b' = order_bytes order 8 v"
    using put_whole[OF B(3), of 8 order v] by auto
  show ?thesis using B P
    by (auto simp: PutUint64_def reslice_def PutUint64_bo_def  split: prod.splits intro!: Return_ok)
qed

lemma ReadFull_shape:
  "\<exists>r' buf' e. ReadFull r buf = (r', buf', e) \<and> slen buf' = slen buf \<and> (cap buf = 8 \<longrightarrow> slen buf \<le> 8 \<longrightarrow> cap buf' = 8)"
  by (auto simp: ReadFull_def cap_def)

lemma Uint8_ok:
  assumes "pool_ok l"
  shows "\<exists>l' r' v e. pool_ok l' \<and> Uint8 l r = Some (l', r', v, e)"
proof -
  obtain b l1 where B: "Borrow l = Some (b, l1)" "slen b = 8" "cap b = 8" "pool_ok l1"
    using Borrow_ok[OF assms] by blast
  obtain r' buf' e where R: "ReadFull r (b\<lparr>slen := 1\<rparr>) = (r', buf', e)" "slen buf' = 1" "cap buf' = 8"
    using ReadFull_shape[of r "b\<lparr>slen := 1\<rparr>"] B(3) by (auto simp: cap_def)
  show ?thesis using B R
    by (cases e) (auto simp: Uint8_def reslice_def get_index_def intro!: Return_ok)
qed

lemma Uint16_ok:
  assumes "pool_ok l"
  shows "\<exists>l' r' v e. pool_ok l' \<and> Uint16 l r order = Some (l', r', v, e)"
proof -
  obtain b l1 where B: "Borrow l = Some (b, l1)" "slen b = 8" "cap b = 8" "pool_ok l1"
    using Borrow_ok[OF assms] by blast
  obtain r' buf' e where R: "ReadFull r (b\<lparr>slen := 2\<rparr>) = (r', buf', e)" "slen buf' = 2" "cap buf' = 8"
    using ReadFull_shape[of r "b\<lparr>slen := 2\<rparr>"] B(3) by (auto simp: cap_def)
  show ?thesis using B R
    by (cases e) (auto simp: Uint16_def reslice_def get_uint_def intro!: Return_ok)
qed

lemma Uint32_ok:
  assumes "pool_ok l"
  shows "\<exists>l' r' v e. pool_ok l' \<and> Uint32 l r order = Some (l', r', v, e)"
proof -
  obtain b l1 where B: "Borrow l = Some (b, l1)" "slen b = 8" "cap b = 8" "pool_ok l1"
    using Borrow_ok[OF assms] by blast
  obtain r' buf' e where R: "ReadFull r (b\<lparr>slen := 4\<rparr>) = (r', buf', e)" "slen buf' = 4" "cap buf' = 8"
    using ReadFull_shape[of r "b\<lparr>slen := 4\<rparr>"] B(3) by (auto simp: cap_def)
  show ?thesis using B R
    by (cases e) (auto simp: Uint32_def reslice_def get_uint_def intro!: Return_ok)
qed

lemma Uint64_ok:
  assumes "pool_ok l"
  shows "\<exists>l' r' v e. pool_ok l' \<and> Uint64 l r order = Some (l', r', v, e)"
proof -
  obtain b l1 where B: "Borrow l = Some (b, l1)" "slen b = 8" "cap b = 8" "pool_ok l1"
    using Borrow_ok[OF assms] by blast
  obtain r' buf' e where R: "ReadFull r (b\<lparr>slen := 8\<rparr>) = (r', buf', e)" "slen buf' = 8" "cap buf' = 8"
    using ReadFull_shape[of r "b\<lparr>slen := 8\<rparr>"] B(3) by (auto simp: cap_def)
  show ?thesis using B R
    by (cases e) (auto simp: Uint64_def reslice_def get_uint_def intro!: Return_ok)
qed


lemma WriteVarIntBuf_total:
  assumes "slen buf = 8" and "cap buf = 8"
  shows "\<exists>w' buf' e. WriteVarIntBuf w pver val buf = Some (w', buf', e) \<and> slen buf' = 8 \<and> cap buf' = 8"
proof -
  from assms(2) obtain a0 a1 a2 a3 a4 a5 a6 a7 where A: "arr buf = [a0, a1, a2, a3, a4, a5, a6, a7]"
    unfolding cap_def by (rule length8_cases)
  show ?thesis
    using assms(1) A
    by (auto simp: WriteVarIntBuf_def set_index_def reslice_def PutUint16_bo_def PutUint32_bo_def
        PutUint64_bo_def put_at_def contents_def cap_def split: prod.splits option.splits)
qed

lemma writeVarStringBuf_total:
  assumes "slen buf = 8" and "cap buf = 8"
  shows "\<exists>w' buf' e. writeVarStringBuf w pver str buf = Some (w', buf', e) \<and> slen buf' = 8 \<and> cap buf' = 8"
proof -
  obtain w1 buf1 e1 where V: "WriteVarIntBuf w pver (of_nat (length str)) buf = Some (w1, buf1, e1)"
      "slen buf1 = 8" "cap buf1 = 8"
    using WriteVarIntBuf_total[OF assms] by blast
  show ?thesis using V
    by (cases e1) (auto simp: writeVarStringBuf_def split: prod.splits)
qed

lemma writeVarStringBuf_bytes:
  assumes "slen buf = 8" and "cap buf = 8" and "budget w = None"
  shows "\<exists>buf'. slen buf' = 8 \<and> cap buf' = 8 \<and> writeVarStringBuf w pver str buf =
     Some (w\<lparr>written := written w @
              (if (of_nat (length str) :: 64 word) < 0xfd then [ucast (of_nat (length str) :: 64 word)]
               else if (of_nat (length str) :: 64 word) \<le> 0xffff then 0xfd # le_bytes 2 (of_nat (length str) :: 64 word)
               else if (of_nat (length str) :: 64 word) \<le> 0xffffffff then 0xfe # le_bytes 4 (of_nat (length str) :: 64 word)
               else 0xff # le_bytes 8 (of_nat (length str) :: 64 word)) @ bytes_of_string str\<rparr>, buf', None)"
proof -
  obtain buf1 where V: "slen buf1 = 8" "cap buf1 = 8" "WriteVarIntBuf w pver (of_nat (length str)) buf =
     Some (w\<lparr>written := written w @
              (if (of_nat (length str) :: 64 word) < 0xfd then [ucast (of_nat (length str) :: 64 word)]
               else if (of_nat (length str) :: 64 word) \<le> 0xffff then 0xfd # le_bytes 2 (of_nat (length str) :: 64 word)
               else if (of_nat (length str) :: 64 word) \<le> 0xffffffff then 0xfe # le_bytes 4 (of_nat (length str) :: 64 word)
               else 0xff # le_bytes 8 (of_nat (length str) :: 64 word))\<rparr>, buf1, None)"
    using WriteVarIntBuf_bytes[OF assms] by blast
  show ?thesis using V assms(3)
    by (simp add: writeVarStringBuf_def Write_None)
qed

lemma writeNetAddressBuf_total:
  assumes "slen buf = 8" and "cap buf = 8"
  shows "\<exists>w' buf' e. writeNetAddressBuf w pver na ts buf = Some (w', buf', e) \<and> slen buf' = 8 \<and> cap buf' = 8"
proof -
  from assms(2) obtain a0 a1 a2 a3 a4 a5 a6 a7 where A: "arr buf = [a0, a1, a2, a3, a4, a5, a6, a7]"
    unfolding cap_def by (rule length8_cases)
  show ?thesis
    using assms(1) A
    by (auto simp: writeNetAddressBuf_def reslice_def PutUint16_bo_def
        PutUint64_bo_def put_at_def contents_def cap_def Let_def split: prod.splits option.splits)
qed


lemma writeNetAddressBuf_bytes:
  assumes "slen buf = 8" and "cap buf = 8" and "budget w = None"
  shows "\<exists>buf'. slen buf' = 8 \<and> cap buf' = 8 \<and> writeNetAddressBuf w pver na ts buf =
     Some (w\<lparr>written := written w @ le_bytes 8 (na_Services na) @ IP_layout (na_IP na)
                          @ [ucast (drop_bit 8 (na_Port na)), ucast (na_Port na)]\<rparr>, buf', None)"
proof -
  from assms(2) obtain a0 a1 a2 a3 a4 a5 a6 a7 where A: "arr buf = [a0, a1, a2, a3, a4, a5, a6, a7]"
    unfolding cap_def by (rule length8_cases)
  show ?thesis
    using assms(1,3) A
    by (simp add: writeNetAddressBuf_def reslice_def PutUint16_bo_def IP_layout_def
        PutUint64_bo_def put_at_def contents_def cap_def Let_def Write_None order_bytes_def Write_def)
       (simp add: le_bytes_def numeral_2_eq_2)
qed

lemma writeNetAddress_total:
  assumes "pool_ok l"
  shows "\<exists>l' w' e. pool_ok l' \<and> writeNetAddress l w pver na ts = Some (l', w', e)"
proof -
  obtain b l1 where B: "Borrow l = Some (b, l1)" "slen b = 8" "cap b = 8" "pool_ok l1"
    using Borrow_ok[OF assms] by blast
  obtain w' buf' e where N: "writeNetAddressBuf w pver na ts b = Some (w', buf', e)" "cap buf' = 8"
    using writeNetAddressBuf_total[OF B(2,3)] by blast
  show ?thesis using B N
    by (auto simp: writeNetAddress_def intro!: Return_ok)
qed

lemma WriteVarString_total:
  assumes "pool_ok l"
  shows "\<exists>l' w' e. pool_ok l' \<and> WriteVarString l w pver str = Some (l', w', e)"
proof -
  obtain b l1 where B: "Borrow l = Some (b, l1)" "slen b = 8" "cap b = 8" "pool_ok l1"
    using Borrow_ok[OF assms] by blast
  obtain w' buf' e where N: "writeVarStringBuf w pver str b = Some (w', buf', e)" "cap buf' = 8"
    using writeVarStringBuf_total[OF B(2,3)] by blast
  show ?thesis using B N
    by (auto simp: WriteVarString_def intro!: Return_ok)
qed


lemma emits_PutUint8: "pool_ok l \<Longrightarrow> budget w = None \<Longrightarrow> emits (PutUint8 l w v) w [v]"
  using PutUint8_ok[of l w v] by (auto simp: emits_def Write_None)

lemma emits_PutUint32: "pool_ok l \<Longrightarrow> budget w = None \<Longrightarrow> emits (PutUint32 l w LittleEndian v) w (le_bytes 4 v)"
  using PutUint32_ok[of l w LittleEndian v] by (auto simp: emits_def Write_None order_bytes_def)

lemma emits_PutUint64: "pool_ok l \<Longrightarrow> budget w = None \<Longrightarrow> emits (PutUint64 l w LittleEndian v) w (le_bytes 8 v)"
  using PutUint64_ok[of l w LittleEndian v] by (auto simp: emits_def Write_None order_bytes_def)

lemma emits_write_array: "pool_ok l \<Longrightarrow> budget w = None \<Longrightarrow> emits (write_array l w e) w e"
  by (auto simp: emits_def write_array_def Write_None)

lemma emits_writeNetAddress:
  assumes "pool_ok l" and "budget w = None"
  shows "emits (writeNetAddress l w pver na ts) w (NetAddress_layout na)"
proof -
  obtain b l1 where B: "Borrow l = Some (b, l1)" "slen b = 8" "cap b = 8" "pool_ok l1"
    using Borrow_ok[OF assms(1)] by blast
  obtain buf' where N: "cap buf' = 8" "writeNetAddressBuf w pver na ts b =
     Some (w\<lparr>written := written w @ le_bytes 8 (na_Services na) @ IP_layout (na_IP na)
                          @ [ucast (drop_bit 8 (na_Port na)), ucast (na_Port na)]\<rparr>, buf', None)"
    using writeNetAddressBuf_bytes[OF B(2,3) assms(2)] by blast
  show ?thesis using B N
    by (auto simp: writeNetAddress_def emits_def NetAddress_layout_def intro!: Return_ok)
qed

lemma emits_WriteVarString:
  assumes "pool_ok l" and "budget w = None"
  shows "emits (WriteVarString l w pver str) w (VarInt_layout (of_nat (length str)) @ bytes_of_string str)"
proof -
  obtain b l1 where B: "Borrow l = Some (b, l1)" "slen b = 8" "cap b = 8" "pool_ok l1"
    using Borrow_ok[OF assms(1)] by blast
  obtain buf' where N: "cap buf' = 8" "writeVarStringBuf w pver str b =
     Some (w\<lparr>written := written w @ VarInt_layout (of_nat (length str)) @ bytes_of_string str\<rparr>, buf', None)"
    using writeVarStringBuf_bytes[OF B(2,3) assms(2)] unfolding VarInt_layout_def by blast
  show ?thesis using B N
    by (auto simp: WriteVarString_def emits_def intro!: Return_ok)
qed

lemma emits_and_then:
  assumes "emits m w a"
    and "\<And>l'. pool_ok l' \<Longrightarrow> emits (f l' (w\<lparr>written := written w @ a\<rparr>)) (w\<lparr>written := written w @ a\<rparr>) b"
  shows "emits (and_then m f) w (a @ b)"
proof -
  obtain l1 where M: "pool_ok l1" "m = Some (l1, w\<lparr>written := written w @ a\<rparr>, None)"
    using assms(1) by (auto simp: emits_def)
  from assms(2)[OF M(1)] show ?thesis using M
    by (auto simp: emits_def and_then_def)
qed

lemma emits_writeElements_Nil: "pool_ok l \<Longrightarrow> emits (writeElements l w []) w []"
  by (simp add: emits_def)

lemma emits_writeElements_Cons:
  assumes "emits (writeElement l w e) w a"
    and "\<And>l'. pool_ok l' \<Longrightarrow> emits (writeElements l' (w\<lparr>written := written w @ a\<rparr>) es) (w\<lparr>written := written w @ a\<rparr>) b"
  shows "emits (writeElements l w (e # es)) w (a @ b)"
proof -
  obtain l1 where M: "pool_ok l1" "writeElement l w e = Some (l1, w\<lparr>written := written w @ a\<rparr>, None)"
    using assms(1) by (auto simp: emits_def)
  from assms(2)[OF M(1)] show ?thesis using M
    by (auto simp: emits_def)
qed

lemma budget_upd [simp]: "budget (w\<lparr>written := x\<rparr>) = budget w"
  by simp

lemma MsgVersion_BtcEncode_emits:
  assumes "pool_ok l" and "budget w = None"
  shows "emits (MsgVersion_BtcEncode msg l w pver enc) w (MsgVersion_layout msg)"
proof -
  have hdr: "emits (writeElements l w [El_int32 (ProtocolVersion msg), El_ServiceFlag (Services msg), El_int64 (Timestamp msg)]) w
      (le_bytes 4 (ProtocolVersion msg) @ le_bytes 8 (Services msg) @ le_bytes 8 (Timestamp msg) @ [])"
    using assms
    by (intro emits_writeElements_Cons emits_writeElements_Nil) (simp_all add: emits_PutUint32 emits_PutUint64)
  have "emits (MsgVersion_BtcEncode msg l w pver enc) w
     ((le_bytes 4 (ProtocolVersion msg) @ le_bytes 8 (Services msg) @ le_bytes 8 (Timestamp msg) @ [])
      @ NetAddress_layout (AddrYou msg) @ NetAddress_layout (AddrMe msg) @ le_bytes 8 (Nonce msg)
      @ (VarInt_layout (of_nat (length (UserAgent msg))) @ bytes_of_string (UserAgent msg))
      @ le_bytes 4 (LastBlock msg) @ [])"
    unfolding MsgVersion_BtcEncode_def
    apply (rule emits_and_then [OF hdr])
    apply (rule emits_and_then [OF emits_writeNetAddress], simp, simp add: assms)
    apply (rule emits_and_then [OF emits_writeNetAddress], simp, simp add: assms)
    apply (rule emits_and_then)
     apply (simp add: emits_PutUint64 assms)
    apply (rule emits_and_then [OF emits_WriteVarString], simp, simp add: assms)
    apply (rule emits_and_then)
     apply (simp add: emits_PutUint32 assms)
    apply (simp add: emits_def)
    done
  then show ?thesis by (simp add: MsgVersion_layout_def)
qed

lemma length_bytes_of_string [simp]: "length (bytes_of_string s) = length s"
  by (simp add: bytes_of_string_def)

lemma le_value_le_bytes_4: "(le_value (le_bytes 4 (v :: 32 word)) :: 32 word) = v"
  apply (simp add: le_bytes_def upt_4)
  apply (rule bit_word_eqI)
  apply (auto simp: bit_simps)
  subgoal for n by (cases "24 \<le> n") auto
  done

lemma WriteMessageWithEncodingN_emits:
  assumes cmd: "length (Command msg) \<le> 12"
    and enc: "BtcEncode msg l new_Buffer pver encoding = Some (l1, bw, None)"
    and l1: "pool_ok l1"
    and h: "4 \<le> length (H payload)"
    and p: "written bw = payload"
    and w: "budget w = None"
  shows "emits (WriteMessageWithEncodingN H l w msg pver btcnet encoding) w
           (Header_layout btcnet (Command msg) (of_nat (length payload)) (take 4 (H payload)) @ payload)"
proof -
  let ?command = "copy_bytes (replicate CommandSize 0) (bytes_of_string (Command msg))"
  let ?sum = "copy_bytes (replicate 4 0) (take 4 (H payload))"
  have c: "?command = bytes_of_string (Command msg) @ replicate (12 - length (Command msg)) 0"
    using cmd by (simp add: copy_bytes_def CommandSize_def)
  have s: "?sum = take 4 (H payload)"
    using h by (simp add: copy_bytes_def)
  have b: "budget new_Buffer = None" "written new_Buffer = []"
    by (simp_all add: new_Buffer_def)
  have "emits (writeElements l1 new_Buffer
           [El_BitcoinNet btcnet, El_command ?command, El_uint32 (of_nat (length payload)), El_checksum ?sum]) new_Buffer
         (le_bytes 4 btcnet @ ?command @ le_bytes 4 (of_nat (length payload) :: 32 word) @ ?sum @ [])"
    using l1 b(1)
    by (intro emits_writeElements_Cons emits_writeElements_Nil)
       (simp_all add: emits_PutUint32 emits_write_array)
  then obtain l2 where hw: "pool_ok l2"
     "writeElements l1 new_Buffer
           [El_BitcoinNet btcnet, El_command ?command, El_uint32 (of_nat (length payload)), El_checksum ?sum]
      = Some (l2, new_Buffer\<lparr>written := Header_layout btcnet (Command msg) (of_nat (length payload)) (take 4 (H payload))\<rparr>, None)"
    unfolding c s using b(2) by (auto simp: emits_def Header_layout_def)
  show ?thesis
    using cmd enc p h hw w
    by (auto simp: WriteMessageWithEncodingN_def Let_def CommandSize_def emits_def Write_None)
qed

lemma replicate_4: "replicate 4 x = [x, x, x, x]"
  by (simp add: numeral_eq_Suc)

lemma replicate_8: "replicate 8 x = [x, x, x, x, x, x, x, x]"
  by (simp add: numeral_eq_Suc)

lemma replicate_16: "replicate 16 x = [x, x, x, x, x, x, x, x, x, x, x, x, x, x, x, x]"
  by (simp add: numeral_eq_Suc)

lemma replicate_5: "replicate 5 x = [x, x, x, x, x]"
  by (simp add: numeral_eq_Suc)

lemma length_huge_UserAgent: "length huge_UserAgent = 4294967296"
  by (simp add: huge_UserAgent_def)

lemma MsgVersion_layout_huge:
  "MsgVersion_layout huge_MsgVersion =
       [0x80, 0x11, 0x01, 0x00]
     @ [0, 0, 0, 0, 0, 0, 0, 0]
     @ [0x00, 0xf1, 0x53, 0x65, 0, 0, 0, 0]
     @ [0, 0, 0, 0, 0, 0, 0, 0] @ [0, 0, 0, 0, 0, 0, 0, 0, 0, 0, 0xff, 0xff, 127, 0, 0, 1] @ [0x48, 0x7b]
     @ [0, 0, 0, 0, 0, 0, 0, 0] @ [0, 0, 0, 0, 0, 0, 0, 0, 0, 0, 0, 0, 0, 0, 0, 0] @ [0, 0]
     @ [1, 0, 0, 0, 0, 0, 0, 0]
     @ [0xff, 0, 0, 0, 0, 1, 0, 0, 0] @ bytes_of_string huge_UserAgent
     @ [0, 0, 0, 0]"
  by (simp add: MsgVersion_layout_def huge_MsgVersion_def example_MsgVersion_def NetAddress_layout_def
      NetAddress_zero_def IP_layout_def VarInt_layout_def le_bytes_def upt_4 upt_8 To16_def copy_bytes_def
      length_huge_UserAgent replicate_8 replicate_16)


section \<open>Claims about the codec and the framer\<close>

text \<open>
  C10. On a free list that satisfies the invariant (as the program's own free list does, since it
  starts empty and the codec preserves the invariant): \<open>Borrow\<close> returns a slice of length
  exactly 8, the oldest pooled slice's memory when there is one and fresh zeroed memory
  otherwise; none of the integer readers and writers, the address writer and the string writer
  ever violates a bound of the borrowed slice (none of them panics, for any stream), and each
  leaves the invariant in place; handing back a slice of capacity 8 keeps the invariant; and
  \<open>Return\<close> on a full free list leaves the free list as it was.
\<close>

theorem scratch_buffer_in_range:
  assumes "pool_ok l"
  shows "(\<exists>b l'. Borrow l = Some (b, l') \<and> slen b = 8 \<and> cap b = 8 \<and> pool_ok l'
            \<and> (case l of [] \<Rightarrow> b = make_bytes 8 \<and> l' = [] | x # xs \<Rightarrow> arr b = arr x \<and> l' = xs))
       \<and> (\<exists>l' r' v e. pool_ok l' \<and> Uint8 l r = Some (l', r', v, e))
       \<and> (\<exists>l' r' v e. pool_ok l' \<and> Uint16 l r byteOrder = Some (l', r', v, e))
       \<and> (\<exists>l' r' v e. pool_ok l' \<and> Uint32 l r byteOrder = Some (l', r', v, e))
       \<and> (\<exists>l' r' v e. pool_ok l' \<and> Uint64 l r byteOrder = Some (l', r', v, e))
       \<and> (\<exists>l' w' e. pool_ok l' \<and> PutUint8 l w v8 = Some (l', w', e))
       \<and> (\<exists>l' w' e. pool_ok l' \<and> PutUint16 l w byteOrder v16 = Some (l', w', e))
       \<and> (\<exists>l' w' e. pool_ok l' \<and> PutUint32 l w byteOrder v32 = Some (l', w', e))
       \<and> (\<exists>l' w' e. pool_ok l' \<and> PutUint64 l w byteOrder v64 = Some (l', w', e))
       \<and> (\<exists>l' w' e. pool_ok l' \<and> writeNetAddress l w pver na ts = Some (l', w', e))
       \<and> (\<exists>l' w' e. pool_ok l' \<and> WriteVarString l w pver str = Some (l', w', e))
       \<and> (cap buf = 8 \<longrightarrow> pool_ok (Return l buf))
       \<and> (length l = binaryFreeListMaxItems \<longrightarrow> Return l buf = l)"
proof -
  have put: "\<exists>l' w' e. pool_ok l' \<and> m = Some (l', w', e)"
    if "\<exists>l'. pool_ok l' \<and> m = Some (l', Write w bs)" for m bs
  proof -
    from that obtain l' where "pool_ok l'" "m = Some (l', Write w bs)"
      by blast
    then show ?thesis
      by (cases "Write w bs") auto
  qed
  have p8: "\<exists>l' w' e. pool_ok l' \<and> PutUint8 l w v8 = Some (l', w', e)"
    by (rule put [OF PutUint8_ok [OF assms]])
  have p16: "\<exists>l' w' e. pool_ok l' \<and> PutUint16 l w byteOrder v16 = Some (l', w', e)"
    by (rule put [OF PutUint16_ok [OF assms]])
  have p32: "\<exists>l' w' e. pool_ok l' \<and> PutUint32 l w byteOrder v32 = Some (l', w', e)"
    by (rule put [OF PutUint32_ok [OF assms]])
  have p64: "\<exists>l' w' e. pool_ok l' \<and> PutUint64 l w byteOrder v64 = Some (l', w', e)"
    by (rule put [OF PutUint64_ok [OF assms]])
  show ?thesis
    apply (intro conjI impI)
                apply (rule Borrow_ok [OF assms])
               apply (rule Uint8_ok [OF assms])
              apply (rule Uint16_ok [OF assms])
             apply (rule Uint32_ok [OF assms])
            apply (rule Uint64_ok [OF assms])
           apply (rule p8)
          apply (rule p16)
         apply (rule p32)
        apply (rule p64)
       apply (rule writeNetAddress_total [OF assms])
      apply (rule WriteVarString_total [OF assms])
     apply (erule Return_ok [OF assms])
    apply (erule Return_full)
    done
qed

theorem scratch_buffer_in_range_witness:
  "pool_ok binarySerializer
   \<and> Borrow binarySerializer = Some (make_bytes 8, [])
   \<and> pool_ok (replicate 1024 (make_bytes 8))
   \<and> cap (make_bytes 8) = 8
   \<and> length (replicate 1024 (make_bytes 8)) = binaryFreeListMaxItems
   \<and> Return (replicate 1024 (make_bytes 8)) (make_bytes 8) = replicate 1024 (make_bytes 8)
   \<and> (\<exists>l' w' e. PutUint64 (replicate 1024 (make_bytes 8)) new_Buffer LittleEndian 1 = Some (l', w', e))"
proof -
  have e: "pool_ok binarySerializer"
    by (simp add: pool_ok_def binarySerializer_def)
  have f: "pool_ok (replicate 1024 (make_bytes 8))"
    by (simp add: pool_ok_def binaryFreeListMaxItems_def list_all_iff cap_def make_bytes_def)
  have c: "cap (make_bytes 8) = 8"
    by (simp add: cap_def make_bytes_def)
  have n: "length (replicate 1024 (make_bytes 8)) = binaryFreeListMaxItems"
    by (simp add: binaryFreeListMaxItems_def)
  have b: "binarySerializer = []"
    by (simp add: binarySerializer_def)
  note empty = scratch_buffer_in_range [OF e, of "[]" LittleEndian new_Buffer 0 0 0 0 70016 NetAddress_zero False "[]" "make_bytes 8"]
  note full = scratch_buffer_in_range [OF f, of "[]" LittleEndian new_Buffer 0 0 0 1 70016 NetAddress_zero False "[]" "make_bytes 8"]
  have 1: "Borrow binarySerializer = Some (make_bytes 8, [])"
    using empty [THEN conjunct1] unfolding b by auto
  have 2: "Return (replicate 1024 (make_bytes 8)) (make_bytes 8) = replicate 1024 (make_bytes 8)"
    using full n by blast
  have 3: "\<exists>l' w' e. PutUint64 (replicate 1024 (make_bytes 8)) new_Buffer LittleEndian 1 = Some (l', w', e)"
    using full by blast
  show ?thesis
    using e f c n 1 2 3 by blast
qed

text \<open>
  C4. \<open>writeNetAddressBuf\<close> called with \<open>ts = true\<close> on an address seen at 0x495fab29 with
  services 1, IP 127.0.0.1 and port 8333: the stream receives the 8 service bytes, least
  significant first, the 16-byte IPv4-mapped address and the port, most significant byte first,
  26 bytes in all and no timestamp before them; the call does exactly what it does with
  \<open>ts = false\<close>.
\<close>

theorem writeNetAddressBuf_timestamp_never_written:
  "writeNetAddressBuf new_Buffer 70016 example_NetAddress True (make_bytes 8)
     = Some (new_Buffer\<lparr>written := [1, 0, 0, 0, 0, 0, 0, 0]
                                    @ [0, 0, 0, 0, 0, 0, 0, 0, 0, 0, 0xff, 0xff, 127, 0, 0, 1]
                                    @ [0x20, 0x8d]\<rparr>,
             \<lparr>arr = [0x20, 0x8d, 0, 0, 0, 0, 0, 0], slen = 8\<rparr>, None)
   \<and> writeNetAddressBuf new_Buffer 70016 example_NetAddress True (make_bytes 8)
     = writeNetAddressBuf new_Buffer 70016 example_NetAddress False (make_bytes 8)"
  by (simp add: writeNetAddressBuf_def example_NetAddress_def make_bytes_def new_Buffer_def
      PutUint64_bo_def PutUint16_bo_def put_at_def cap_def order_bytes_def le_bytes_def upt_8
      upt_2 Write_def contents_def reslice_def To16_def v4InV6Prefix_def copy_bytes_def
      replicate_8 Let_def)

text \<open>
  C1. \<open>MsgVersion.BtcEncode\<close> on a version message whose \<open>DisableRelayTx\<close> is true: the
  payload is protocol version, services, timestamp, recipient address, sender address, nonce,
  user agent as a variable-length string and last block, 100 bytes in all; it ends with the four
  bytes of the last block, and no byte for the relay flag follows.
\<close>

theorem MsgVersion_BtcEncode_relay_flag_never_written:
  "\<exists>l'. MsgVersion_BtcEncode example_MsgVersion [] new_Buffer 70016 WitnessEncoding
     = Some (l', new_Buffer\<lparr>written :=
                [0x80, 0x11, 0x01, 0x00]
              @ [0, 0, 0, 0, 0, 0, 0, 0]
              @ [0x00, 0xf1, 0x53, 0x65, 0, 0, 0, 0]
              @ [0, 0, 0, 0, 0, 0, 0, 0] @ [0, 0, 0, 0, 0, 0, 0, 0, 0, 0, 0xff, 0xff, 127, 0, 0, 1] @ [0x48, 0x7b]
              @ [0, 0, 0, 0, 0, 0, 0, 0] @ [0, 0, 0, 0, 0, 0, 0, 0, 0, 0, 0, 0, 0, 0, 0, 0] @ [0, 0]
              @ [1, 0, 0, 0, 0, 0, 0, 0]
              @ [0x0f] @ [0x2f, 0x62, 0x74, 0x63, 0x77, 0x69, 0x72, 0x65, 0x3a, 0x30, 0x2e, 0x35, 0x2e, 0x30, 0x2f]
              @ [0, 0, 0, 0]\<rparr>, None)"
proof -
  have p: "pool_ok []" by (simp add: pool_ok_def)
  have b: "budget new_Buffer = None" by (simp add: new_Buffer_def)
  have "MsgVersion_layout example_MsgVersion =
                [0x80, 0x11, 0x01, 0x00]
              @ [0, 0, 0, 0, 0, 0, 0, 0]
              @ [0x00, 0xf1, 0x53, 0x65, 0, 0, 0, 0]
              @ [0, 0, 0, 0, 0, 0, 0, 0] @ [0, 0, 0, 0, 0, 0, 0, 0, 0, 0, 0xff, 0xff, 127, 0, 0, 1] @ [0x48, 0x7b]
              @ [0, 0, 0, 0, 0, 0, 0, 0] @ [0, 0, 0, 0, 0, 0, 0, 0, 0, 0, 0, 0, 0, 0, 0, 0] @ [0, 0]
              @ [1, 0, 0, 0, 0, 0, 0, 0]
              @ [0x0f] @ [0x2f, 0x62, 0x74, 0x63, 0x77, 0x69, 0x72, 0x65, 0x3a, 0x30, 0x2e, 0x35, 0x2e, 0x30, 0x2f]
              @ [0, 0, 0, 0]"
    by (simp add: MsgVersion_layout_def example_MsgVersion_def NetAddress_layout_def NetAddress_zero_def
        IP_layout_def VarInt_layout_def le_bytes_def upt_4 upt_8 To16_def copy_bytes_def bytes_of_string_def
        replicate_8 replicate_16)
  then show ?thesis
    using MsgVersion_BtcEncode_emits [OF p b, of example_MsgVersion 70016 WitnessEncoding]
    by (auto simp: emits_def new_Buffer_def)
qed

text \<open>
  C5, amended. For every network id, every message whose command has at most 12 bytes and whose
  encoder produces the payload, and a stream that accepts the writes, \<open>WriteMessageWithEncodingN\<close>
  appends to the stream exactly a 24-byte header followed by the payload, \<open>24 + length payload\<close>
  bytes in all. The header is the network id in 4 bytes, least significant first, the command
  padded with zero bytes to 12, a 4-byte length field and the first 4 bytes of the double hash
  of the payload. The length field, read least significant byte first, is the payload's length
  modulo \<open>2 ^ 32\<close>: it equals the payload's length for every payload shorter than \<open>2 ^ 32\<close>
  bytes.
\<close>

theorem WriteMessageWithEncodingN_frame:
  assumes "length (Command msg) \<le> 12"
    and "BtcEncode msg l new_Buffer pver encoding = Some (l1, bw, None)"
    and "pool_ok l1"
    and "written bw = payload"
    and "length (H payload) = 32"
    and "budget w = None"
  shows "\<exists>l' header lenfield.
           WriteMessageWithEncodingN H l w msg pver btcnet encoding
             = Some (l', w\<lparr>written := written w @ header @ payload\<rparr>, None)
         \<and> header = le_bytes 4 btcnet
                    @ (bytes_of_string (Command msg) @ replicate (12 - length (Command msg)) 0)
                    @ lenfield
                    @ take 4 (H payload)
         \<and> length header = 24
         \<and> length (header @ payload) = 24 + length payload
         \<and> length lenfield = 4
         \<and> unat (le_value lenfield :: 32 word) = length payload mod 2 ^ 32
         \<and> (length payload < 2 ^ 32 \<longrightarrow> unat (le_value lenfield :: 32 word) = length payload)"
proof -
  have h4: "4 \<le> length (H payload)" using assms(5) by simp
  obtain l' where "WriteMessageWithEncodingN H l w msg pver btcnet encoding
      = Some (l', w\<lparr>written := written w @ Header_layout btcnet (Command msg) (of_nat (length payload)) (take 4 (H payload)) @ payload\<rparr>, None)"
    using WriteMessageWithEncodingN_emits [where H = H and btcnet = btcnet, OF assms(1,2,3) h4 assms(4,6)]
    by (auto simp: emits_def)
  moreover have "unat (of_nat (length payload) :: 32 word) = length payload mod 2 ^ 32"
    by (simp add: unat_of_nat)
  ultimately show ?thesis
    using assms(1,5)
    by (intro exI [of _ l'] exI [of _ "Header_layout btcnet (Command msg) (of_nat (length payload)) (take 4 (H payload))"]
          exI [of _ "le_bytes 4 (of_nat (length payload) :: 32 word)"])
       (simp add: Header_layout_def le_value_le_bytes_4)
qed

theorem WriteMessageWithEncodingN_frame_witness:
  "length (Command MsgVerAck_Message) \<le> 12
   \<and> BtcEncode MsgVerAck_Message [] new_Buffer 70016 WitnessEncoding = Some ([], new_Buffer, None)
   \<and> pool_ok []
   \<and> written new_Buffer = []
   \<and> length (example_hash []) = 32
   \<and> budget new_Buffer = None
   \<and> length ([] :: byte list) < 2 ^ 32
   \<and> (\<exists>l' header.
         WriteMessageWithEncodingN example_hash [] new_Buffer MsgVerAck_Message 70016 0x12141c16 WitnessEncoding
           = Some (l', new_Buffer\<lparr>written := header\<rparr>, None)
         \<and> length header = 24)
   \<and> length (Command (MsgVersion_Message example_MsgVersion)) \<le> 12
   \<and> length (MsgVersion_layout example_MsgVersion) < 2 ^ 32
   \<and> (\<exists>l' header.
         WriteMessageWithEncodingN example_hash [] new_Buffer (MsgVersion_Message example_MsgVersion)
             70016 0x12141c16 WitnessEncoding
           = Some (l', new_Buffer\<lparr>written := header @ MsgVersion_layout example_MsgVersion\<rparr>, None)
         \<and> length header = 24)"
proof -
  have c: "length (Command MsgVerAck_Message) \<le> 12"
    by (simp add: MsgVerAck_Message_def CmdVerAck_def)
  have e: "BtcEncode MsgVerAck_Message [] new_Buffer 70016 WitnessEncoding = Some ([], new_Buffer, None)"
    by (simp add: MsgVerAck_Message_def MsgVerAck_BtcEncode_def)
  have p: "pool_ok []"
    by (simp add: pool_ok_def)
  have w: "written new_Buffer = []" and b: "budget new_Buffer = None"
    by (simp_all add: new_Buffer_def)
  have h: "length (example_hash payload) = 32" for payload
    by (simp add: example_hash_def)
  have ack: "\<exists>l' header.
         WriteMessageWithEncodingN example_hash [] new_Buffer MsgVerAck_Message 70016 0x12141c16 WitnessEncoding
           = Some (l', new_Buffer\<lparr>written := header\<rparr>, None)
         \<and> length header = 24"
    using WriteMessageWithEncodingN_frame [where btcnet = "0x12141c16" and H = example_hash, OF c e p w h b] w by auto
  have c2: "length (Command (MsgVersion_Message example_MsgVersion)) \<le> 12"
    by (simp add: MsgVersion_Message_def CmdVersion_def)
  obtain l1 where l1: "pool_ok l1"
    and e2: "BtcEncode (MsgVersion_Message example_MsgVersion) [] new_Buffer 70016 WitnessEncoding
              = Some (l1, new_Buffer\<lparr>written := MsgVersion_layout example_MsgVersion\<rparr>, None)"
    using MsgVersion_BtcEncode_emits [OF p b, of example_MsgVersion 70016 WitnessEncoding] w
    by (auto simp: emits_def MsgVersion_Message_def)
  have w2: "written (new_Buffer\<lparr>written := MsgVersion_layout example_MsgVersion\<rparr>) = MsgVersion_layout example_MsgVersion"
    by simp
  have ver: "\<exists>l' header.
         WriteMessageWithEncodingN example_hash [] new_Buffer (MsgVersion_Message example_MsgVersion)
             70016 0x12141c16 WitnessEncoding
           = Some (l', new_Buffer\<lparr>written := header @ MsgVersion_layout example_MsgVersion\<rparr>, None)
         \<and> length header = 24"
    using WriteMessageWithEncodingN_frame [where btcnet = "0x12141c16" and H = example_hash, OF c2 e2 l1 w2 h b] w by auto
  have n: "length (MsgVersion_layout example_MsgVersion) < 2 ^ 32"
    by (simp add: MsgVersion_layout_def NetAddress_layout_def IP_layout_def copy_bytes_def VarInt_layout_def
        example_MsgVersion_def NetAddress_zero_def To16_def)
  show ?thesis
    using c e p w h [of "[]"] b ack c2 n ver by simp
qed

text \<open>
  C5 as stated fails for a version message whose user agent has \<open>2 ^ 32\<close> bytes: the payload
  has 4294967389 bytes and the frame's length field holds 93.
\<close>

theorem length_field_counterexample:
  "WriteMessageWithEncodingN example_hash [] new_Buffer (MsgVersion_Message huge_MsgVersion)
       70016 0xd9b4bef9 WitnessEncoding
     = Some ([\<lparr>arr = [93, 0, 0, 0, 1, 0, 0, 0], slen = 4\<rparr>],
             new_Buffer\<lparr>written := [0xf9, 0xbe, 0xb4, 0xd9]
                                    @ [0x76, 0x65, 0x72, 0x73, 0x69, 0x6f, 0x6e, 0, 0, 0, 0, 0]
                                    @ [93, 0, 0, 0]
                                    @ [0, 0, 0, 0]
                                    @ MsgVersion_layout huge_MsgVersion\<rparr>, None)
   \<and> length (MsgVersion_layout huge_MsgVersion) = 4294967389
   \<and> unat (le_value [93, 0, 0, 0] :: 32 word) = 93"
  unfolding MsgVersion_layout_huge
  by (simp add: WriteMessageWithEncodingN_def MsgVersion_Message_def MsgVersion_BtcEncode_def and_then_def
      huge_MsgVersion_def example_MsgVersion_def NetAddress_zero_def CmdVersion_def
      writeNetAddress_def writeNetAddressBuf_def WriteVarString_def writeVarStringBuf_def WriteVarIntBuf_def
      PutUint64_def PutUint64_bo_def PutUint16_bo_def set_index_def
      write_array_def Write_def new_Buffer_def
      length_huge_UserAgent CommandSize_def copy_bytes_def bytes_of_string_def example_hash_def
      PutUint32_def Borrow_def Return_def reslice_def make_bytes_def cap_def PutUint32_bo_def put_at_def
      order_bytes_def le_bytes_def upt_4 upt_8 upt_2 contents_def binaryFreeListMaxItems_def Let_def
      To16_def replicate_4 replicate_5 replicate_8 replicate_16)

section \<open>The address pattern\<close>

lemma concI: "xs \<in> A \<Longrightarrow> ys \<in> B \<Longrightarrow> xs @ ys \<in> conc A B"
  by (auto simp: conc_def)

lemma Nil_in_conc: "[] \<in> conc A B \<longleftrightarrow> [] \<in> A \<and> [] \<in> B"
  by (auto simp: conc_def)

lemma Cons_in_conc:
  "c # w \<in> conc A B \<longleftrightarrow> (\<exists>u v. w = u @ v \<and> c # u \<in> A \<and> v \<in> B) \<or> ([] \<in> A \<and> c # w \<in> B)"
  by (auto simp: conc_def Cons_eq_append_conv) 

lemma Cons_in_star_D:
  assumes "x \<in> star A"
  shows "x = c # w \<Longrightarrow> \<exists>u v. w = u @ v \<and> c # u \<in> A \<and> v \<in> star A"
  using assms
proof (induction arbitrary: w rule: star.induct)
  case star_Nil
  then show ?case by simp
next
  case (star_App xs ys)
  show ?case
  proof (cases xs)
    case Nil
    with star_App show ?thesis by simp
  next
    case (Cons a as)
    with star_App.prems have "a = c" "w = as @ ys" by simp_all
    with Cons star_App.hyps show ?thesis by blast
  qed
qed

lemma Cons_in_star:
  "c # w \<in> star A \<longleftrightarrow> (\<exists>u v. w = u @ v \<and> c # u \<in> A \<and> v \<in> star A)"
proof
  assume "c # w \<in> star A"
  then show "\<exists>u v. w = u @ v \<and> c # u \<in> A \<and> v \<in> star A"
    by (rule Cons_in_star_D) simp
next
  assume "\<exists>u v. w = u @ v \<and> c # u \<in> A \<and> v \<in> star A"
  then obtain u v where "w = u @ v" "c # u \<in> A" "v \<in> star A" by blast
  then show "c # w \<in> star A"
    using star_App [of "c # u" A v] by simp
qed

lemma nullable_iff: "nullable r \<longleftrightarrow> [] \<in> lang r"
  by (induction r) (auto simp: Nil_in_conc intro: star_Nil)

lemma lang_deriv: "w \<in> lang (deriv c r) \<longleftrightarrow> c # w \<in> lang r"
proof (induction r arbitrary: w)
  case (Concat r1 r2)
  have "w \<in> conc (lang (deriv c r1)) (lang r2) \<longleftrightarrow> (\<exists>u v. w = u @ v \<and> c # u \<in> lang r1 \<and> v \<in> lang r2)"
    by (auto simp: conc_def Concat.IH)
  then show ?case
    by (simp add: Cons_in_conc nullable_iff Concat.IH)
next
  case (Star r)
  have "w \<in> conc (lang (deriv c r)) (star (lang r)) \<longleftrightarrow> (\<exists>u v. w = u @ v \<and> c # u \<in> lang r \<and> v \<in> star (lang r))"
    by (auto simp: conc_def Star.IH)
  then show ?case
    by (simp add: Cons_in_star)
qed auto

lemma matches_iff: "matches r s \<longleftrightarrow> s \<in> lang r"
  by (induction s arbitrary: r) (simp_all add: nullable_iff lang_deriv)

lemma digit_lang: "is_digit c \<Longrightarrow> [c] \<in> lang Digit"
  by (simp add: Digit_def)

lemma digits_in_star: "list_all is_digit p \<Longrightarrow> p \<in> star (lang Digit)"
proof (induction p)
  case Nil
  show ?case by (rule star_Nil)
next
  case (Cons c p)
  then have "[c] \<in> lang Digit" "p \<in> star (lang Digit)"
    by (simp_all add: digit_lang)
  then have "[c] @ p \<in> star (lang Digit)" by (rule star_App)
  then show ?case by simp
qed

lemma port_in_Plus: "port_shape p \<Longrightarrow> p \<in> lang (Plus Digit)"
proof -
  assume a: "port_shape p"
  then obtain c cs where p: "p = c # cs" by (cases p) (auto simp: port_shape_def)
  with a have "[c] \<in> lang Digit" "cs \<in> star (lang Digit)"
    by (auto simp: port_shape_def intro: digits_in_star digit_lang)
  then have "[c] @ cs \<in> conc (lang Digit) (star (lang Digit))" by (rule concI)
  with p show ?thesis by (simp add: Plus_def)
qed

lemma digits_in_Repeat_upto:
  "list_all is_digit a \<Longrightarrow> length a \<le> n \<Longrightarrow> a \<in> lang (Repeat_upto n Digit)"
proof (induction n arbitrary: a)
  case 0
  then show ?case by simp
next
  case (Suc n)
  show ?case
  proof (cases a)
    case Nil
    then show ?thesis by (simp add: Quest_def)
  next
    case (Cons c cs)
    with Suc.prems have "[c] \<in> lang Digit" "cs \<in> lang (Repeat_upto n Digit)"
      by (auto intro: Suc.IH digit_lang)
    then have "[c] @ cs \<in> conc (lang Digit) (lang (Repeat_upto n Digit))" by (rule concI)
    with Cons show ?thesis by (simp add: Quest_def)
  qed
qed

lemma Repeat_1_3: "Repeat 1 3 r = Concat r (Repeat_upto 2 r)"
  by simp

lemma Repeat_upto_2: "Repeat_upto 2 r = Quest (Concat r (Quest (Concat r EmptyMatch)))"
  by (simp add: numeral_2_eq_2)

lemma octet_in_Repeat: "octet_shape a \<Longrightarrow> a \<in> lang (Repeat 1 3 Digit)"
proof -
  assume a: "octet_shape a"
  then obtain c cs where p: "a = c # cs" by (cases a) (auto simp: octet_shape_def)
  with a have "[c] \<in> lang Digit" "cs \<in> lang (Repeat_upto 2 Digit)"
    by (auto simp: octet_shape_def intro: digits_in_Repeat_upto digit_lang)
  then have "[c] @ cs \<in> conc (lang Digit) (lang (Repeat_upto 2 Digit))" by (rule concI)
  with p show ?thesis by (simp only: Repeat_1_3 lang.simps append_Cons append_Nil)
qed

lemma Lit_lang: "[c] \<in> lang (Lit c)"
  by (simp add: Lit_def)

lemma shape_matches:
  assumes "octet_shape a" "octet_shape b" "octet_shape c" "octet_shape d" "port_shape p"
  shows "MatchString pattern (a @ ''.'' @ b @ ''.'' @ c @ ''.'' @ d @ '':'' @ p)"
proof -
  have "a @ [CHR ''.''] @ b @ [CHR ''.''] @ c @ [CHR ''.''] @ d @ [CHR '':''] @ p \<in> lang pattern"
    unfolding pattern_def lang.simps
    by (intro concI octet_in_Repeat port_in_Plus Lit_lang assms)
  then show ?thesis
    by (simp add: MatchString_def matches_iff)
qed


lemma lang_Digit_D: "x \<in> lang Digit \<Longrightarrow> \<exists>c. x = [c] \<and> is_digit c"
  by (auto simp: Digit_def)

lemma lang_Lit_D: "x \<in> lang (Lit c) \<Longrightarrow> x = [c]"
  by (auto simp: Lit_def)

lemma concE:
  assumes "x \<in> conc A B"
  obtains u v where "x = u @ v" "u \<in> A" "v \<in> B"
  using assms by (auto simp: conc_def)

lemma star_Digit_D: "x \<in> star (lang Digit) \<Longrightarrow> list_all is_digit x"
proof (induction rule: star.induct)
  case star_Nil
  show ?case by simp
next
  case (star_App xs ys)
  then show ?case by (auto dest: lang_Digit_D)
qed

lemma lang_Plus_Digit_D: "x \<in> lang (Plus Digit) \<Longrightarrow> port_shape x"
  by (auto simp: Plus_def port_shape_def conc_def dest!: lang_Digit_D star_Digit_D)

lemma lang_Repeat_upto_D:
  "x \<in> lang (Repeat_upto n Digit) \<Longrightarrow> list_all is_digit x \<and> length x \<le> n"
proof (induction n arbitrary: x)
  case 0
  then show ?case by simp
next
  case (Suc n)
  from Suc.prems consider "x = []" | "x \<in> conc (lang Digit) (lang (Repeat_upto n Digit))"
    by (auto simp: Quest_def)
  then show ?case
  proof cases
    case 1
    then show ?thesis by simp
  next
    case 2
    then obtain u v where "x = u @ v" "u \<in> lang Digit" "v \<in> lang (Repeat_upto n Digit)"
      by (rule concE)
    then show ?thesis
      using Suc.IH [of v] by (auto dest: lang_Digit_D)
  qed
qed

lemma lang_Repeat_1_3_D: "x \<in> lang (Repeat 1 3 Digit) \<Longrightarrow> octet_shape x"
proof -
  assume "x \<in> lang (Repeat 1 3 Digit)"
  then have "x \<in> conc (lang Digit) (lang (Repeat_upto 2 Digit))"
    by (simp only: Repeat_1_3 lang.simps)
  then obtain u v where "x = u @ v" "u \<in> lang Digit" "v \<in> lang (Repeat_upto 2 Digit)"
    by (rule concE)
  then show ?thesis
    using lang_Repeat_upto_D [of v 2] by (auto simp: octet_shape_def dest: lang_Digit_D)
qed

lemma matches_shape:
  assumes "MatchString pattern s"
  shows "address_shape s"
proof -
  from assms have "s \<in> lang pattern"
    by (simp add: MatchString_def matches_iff)
  then obtain a r1 where 1: "s = a @ r1" "a \<in> lang (Repeat 1 3 Digit)"
      "r1 \<in> lang (Concat (Lit CHR ''.'')
    (Concat (Repeat 1 3 Digit) (Concat (Lit CHR ''.'')
    (Concat (Repeat 1 3 Digit) (Concat (Lit CHR ''.'')
    (Concat (Repeat 1 3 Digit) (Concat (Lit CHR '':'')
    (Plus Digit))))))))"
    unfolding pattern_def lang.simps(5) by (rule concE)
  from 1(3) obtain x1 r2 where 2: "r1 = x1 @ r2" "x1 \<in> lang (Lit CHR ''.'')"
      "r2 \<in> lang (Concat (Repeat 1 3 Digit) (Concat (Lit CHR ''.'')
    (Concat (Repeat 1 3 Digit) (Concat (Lit CHR ''.'')
    (Concat (Repeat 1 3 Digit) (Concat (Lit CHR '':'')
    (Plus Digit)))))))"
    unfolding lang.simps(5) by (rule concE)
  from 2(3) obtain b r3 where 3: "r2 = b @ r3" "b \<in> lang (Repeat 1 3 Digit)"
      "r3 \<in> lang (Concat (Lit CHR ''.'')
    (Concat (Repeat 1 3 Digit) (Concat (Lit CHR ''.'')
    (Concat (Repeat 1 3 Digit) (Concat (Lit CHR '':'')
    (Plus Digit))))))"
    unfolding lang.simps(5) by (rule concE)
  from 3(3) obtain x2 r4 where 4: "r3 = x2 @ r4" "x2 \<in> lang (Lit CHR ''.'')"
      "r4 \<in> lang (Concat (Repeat 1 3 Digit) (Concat (Lit CHR ''.'')
    (Concat (Repeat 1 3 Digit) (Concat (Lit CHR '':'')
    (Plus Digit)))))"
    unfolding lang.simps(5) by (rule concE)
  from 4(3) obtain c r5 where 5: "r4 = c @ r5" "c \<in> lang (Repeat 1 3 Digit)"
      "r5 \<in> lang (Concat (Lit CHR ''.'')
    (Concat (Repeat 1 3 Digit) (Concat (Lit CHR '':'')
    (Plus Digit))))"
    unfolding lang.simps(5) by (rule concE)
  from 5(3) obtain x3 r6 where 6: "r5 = x3 @ r6" "x3 \<in> lang (Lit CHR ''.'')"
      "r6 \<in> lang (Concat (Repeat 1 3 Digit) (Concat (Lit CHR '':'') (Plus Digit)))"
    unfolding lang.simps(5) by (rule concE)
  from 6(3) obtain d r7 where 7: "r6 = d @ r7" "d \<in> lang (Repeat 1 3 Digit)"
      "r7 \<in> lang (Concat (Lit CHR '':'') (Plus Digit))"
    unfolding lang.simps(5) by (rule concE)
  from 7(3) obtain x4 p where 8: "r7 = x4 @ p" "x4 \<in> lang (Lit CHR '':'')" "p \<in> lang (Plus Digit)"
    unfolding lang.simps(5) by (rule concE)
  have x: "x1 = ''.''" "x2 = ''.''" "x3 = ''.''" "x4 = '':''"
    using 2(2) 4(2) 6(2) 8(2) by (auto dest: lang_Lit_D)
  have "octet_shape a" "octet_shape b" "octet_shape c" "octet_shape d" "port_shape p"
    using 1(2) 3(2) 5(2) 7(2) 8(3) by (auto intro: lang_Repeat_1_3_D lang_Plus_Digit_D)
  moreover have "s = a @ ''.'' @ b @ ''.'' @ c @ ''.'' @ d @ '':'' @ p"
    using 1(1) 2(1) 3(1) 4(1) 5(1) 6(1) 7(1) 8(1) x by simp
  ultimately show ?thesis
    unfolding address_shape_def by blast
qed

lemma MatchString_pattern_iff: "MatchString pattern s \<longleftrightarrow> address_shape s"
proof
  assume "MatchString pattern s"
  then show "address_shape s" by (rule matches_shape)
next
  assume "address_shape s"
  then show "MatchString pattern s"
    unfolding address_shape_def using shape_matches by blast
qed

section \<open>The handshake\<close>

lemma WriteMessageWithEncodingN_total:
  assumes cmd: "length (Command msg) \<le> 12"
    and enc: "BtcEncode msg l new_Buffer pver encoding = Some (l1, bw, None)"
    and l1: "pool_ok l1"
    and h: "4 \<le> length (H (written bw))"
  shows "\<exists>l' w' e. pool_ok l' \<and> WriteMessageWithEncodingN H l w msg pver btcnet encoding = Some (l', w', e)"
proof -
  let ?payload = "written bw"
  let ?command = "copy_bytes (replicate CommandSize 0) (bytes_of_string (Command msg))"
  let ?sum = "copy_bytes (replicate 4 0) (take 4 (H ?payload))"
  have b: "budget new_Buffer = None"
    by (simp add: new_Buffer_def)
  have "emits (writeElements l1 new_Buffer
           [El_BitcoinNet btcnet, El_command ?command, El_uint32 (of_nat (length ?payload)), El_checksum ?sum]) new_Buffer
         (le_bytes 4 btcnet @ ?command @ le_bytes 4 (of_nat (length ?payload) :: 32 word) @ ?sum @ [])"
    using l1 b
    by (intro emits_writeElements_Cons emits_writeElements_Nil)
       (simp_all add: emits_PutUint32 emits_write_array)
  then obtain l2 hw where hw: "pool_ok l2"
     "writeElements l1 new_Buffer
           [El_BitcoinNet btcnet, El_command ?command, El_uint32 (of_nat (length ?payload)), El_checksum ?sum]
      = Some (l2, hw, None)"
    by (auto simp: emits_def)
  obtain w1 e1 where w1: "Write w (written hw) = (w1, e1)"
    by (cases "Write w (written hw)") auto
  obtain w2 e2 where w2: "Write w1 ?payload = (w2, e2)"
    by (cases "Write w1 ?payload") auto
  show ?thesis
    using cmd enc h hw w1 w2
    by (cases e1) (auto simp: WriteMessageWithEncodingN_def Let_def CommandSize_def)
qed

lemma version_message_total:
  assumes "pool_ok l" and "\<And>x. length (H x) = 32"
  shows "\<exists>l' w' e. pool_ok l' \<and>
           WriteMessageWithEncodingN H l w (MsgVersion_Message m) pver btcnet encoding = Some (l', w', e)"
proof -
  have b: "budget new_Buffer = None" "written new_Buffer = []"
    by (simp_all add: new_Buffer_def)
  obtain l1 where l1: "pool_ok l1"
    and e: "BtcEncode (MsgVersion_Message m) l new_Buffer pver encoding
              = Some (l1, new_Buffer\<lparr>written := MsgVersion_layout m\<rparr>, None)"
    using MsgVersion_BtcEncode_emits [OF assms(1) b(1), of m pver encoding] b(2)
    by (auto simp: emits_def MsgVersion_Message_def)
  have c: "length (Command (MsgVersion_Message m)) \<le> 12"
    by (simp add: MsgVersion_Message_def CmdVersion_def)
  have h: "4 \<le> length (H (written (new_Buffer\<lparr>written := MsgVersion_layout m\<rparr>)))"
    by (simp add: assms(2))
  show ?thesis
    by (rule WriteMessageWithEncodingN_total [where H = H, OF c e l1 h])
qed

lemma verack_message_total:
  assumes "pool_ok l" and "\<And>x. length (H x) = 32"
  shows "\<exists>l' w' e. pool_ok l' \<and>
           WriteMessageWithEncodingN H l w MsgVerAck_Message pver btcnet encoding = Some (l', w', e)"
proof -
  have e: "BtcEncode MsgVerAck_Message l new_Buffer pver encoding = Some (l, new_Buffer, None)"
    by (simp add: MsgVerAck_Message_def MsgVerAck_BtcEncode_def)
  have c: "length (Command MsgVerAck_Message) \<le> 12"
    by (simp add: MsgVerAck_Message_def CmdVerAck_def)
  have h: "4 \<le> length (H (written new_Buffer))"
    by (simp add: assms(2))
  show ?thesis
    by (rule WriteMessageWithEncodingN_total [where H = H, OF c e assms(1) h])
qed

text \<open>
  Every way an attempt can end, for a free list that satisfies its invariant and a hash of 32
  bytes: the attempt does not panic, and the calls it makes are determined by the step that
  failed.
\<close>

lemma handshake_outcomes:
  assumes "pool_ok l" and "\<And>x. length (DoubleHashB world x) = 32"
  shows "\<exists>res calls l'. handshake world l peerAddress network protocolVersion = Some (res, calls, l')
           \<and> pool_ok l'
           \<and> (if \<not> MatchString pattern peerAddress
                then res = Inl (ErrorString ''incorrect peer address format'') \<and> calls = [] \<and> l' = l
                else case Dial world peerAddress of
                       Inl err \<Rightarrow> res = Inl err \<and> calls = [Dialed peerAddress]
                     | Inr conn \<Rightarrow>
                        (case SetWriteDeadline world of
                           Some err \<Rightarrow> res = Inl err \<and> calls = [Dialed peerAddress, DeadlineSet]
                         | None \<Rightarrow>
                            (\<exists>err. res = Inl err \<and> calls = [Dialed peerAddress, DeadlineSet, Closed])
                            \<or> (\<exists>c. res = Inr c \<and> calls = [Dialed peerAddress, DeadlineSet])))"
proof (cases "MatchString pattern peerAddress")
  case False
  then show ?thesis
    using assms(1) by (simp add: handshake_def)
next
  case m: True
  show ?thesis
  proof (cases "Dial world peerAddress")
    case (Inl err)
    then show ?thesis
      using assms(1) m by (simp add: handshake_def)
  next
    case d: (Inr conn)
    show ?thesis
    proof (cases "SetWriteDeadline world")
      case (Some err)
      then show ?thesis
        using assms(1) m d by (simp add: handshake_def)
    next
      case s: None
      show ?thesis
      proof (cases "SplitHostPort world peerAddress")
        case (Inl err)
        then show ?thesis
          using assms(1) m d s by (simp add: handshake_def)
      next
        case (Inr hp)
        then obtain ip port where sp: "SplitHostPort world peerAddress = Inr (ip, port)"
          by (cases hp) auto
        show ?thesis
        proof (cases "ParseUint world port")
          case (Inl err)
          then show ?thesis
            using assms(1) m d s sp by (simp add: handshake_def)
        next
          case pu: (Inr portUint64)
          let ?msg = "\<lparr>ProtocolVersion = protocolVersion, Services = 0, Timestamp = Now_Unix world,
                       AddrYou = \<lparr>na_Timestamp = Now_Unix world, na_Services = 0x0,
                                  na_IP = ParseIP world ip, na_Port = ucast portUint64\<rparr>,
                       AddrMe = NetAddress_zero, Nonce = 1, UserAgent = DefaultUserAgent,
                       LastBlock = 0, DisableRelayTx = False\<rparr>"
          obtain l1 conn1 e1 where v: "pool_ok l1"
            "WriteMessageWithEncodingN (DoubleHashB world) l conn (MsgVersion_Message ?msg)
               protocolVersion network LatestEncoding = Some (l1, conn1, e1)"
            using version_message_total [OF assms(1), of "DoubleHashB world", OF assms(2)] by blast
          obtain l2 conn2 e2 where a: "pool_ok l2"
            "WriteMessageWithEncodingN (DoubleHashB world) l1 conn1 MsgVerAck_Message
               protocolVersion network LatestEncoding = Some (l2, conn2, e2)"
            using verack_message_total [OF v(1), of "DoubleHashB world", OF assms(2)] by blast
          show ?thesis
            using m d s sp pu v a
            by (cases e1; cases e2) (simp_all add: handshake_def)
        qed
      qed
    qed
  qed
qed

text \<open>The attempt in a world where every collaborator succeeds and the connection accepts its writes.\<close>

lemma handshake_success:
  assumes "pool_ok l" and "\<And>x. length (DoubleHashB world x) = 32"
    and "MatchString pattern peerAddress"
    and "Dial world peerAddress = Inr conn" and "budget conn = None"
    and "SetWriteDeadline world = None"
    and "SplitHostPort world peerAddress = Inr (ip, port)"
    and "ParseUint world port = Inr portUint64"
  shows "\<exists>c l'. handshake world l peerAddress network protocolVersion
                   = Some (Inr c, [Dialed peerAddress, DeadlineSet], l') \<and> pool_ok l'"
proof -
  let ?msg = "\<lparr>ProtocolVersion = protocolVersion, Services = 0, Timestamp = Now_Unix world,
               AddrYou = \<lparr>na_Timestamp = Now_Unix world, na_Services = 0x0,
                          na_IP = ParseIP world ip, na_Port = ucast portUint64\<rparr>,
               AddrMe = NetAddress_zero, Nonce = 1, UserAgent = DefaultUserAgent,
               LastBlock = 0, DisableRelayTx = False\<rparr>"
  have b: "budget new_Buffer = None" "written new_Buffer = []"
    by (simp_all add: new_Buffer_def)
  have h4: "4 \<le> length (DoubleHashB world x)" for x
    by (simp add: assms(2))
  obtain l0 where l0: "pool_ok l0"
    and e: "BtcEncode (MsgVersion_Message ?msg) l new_Buffer protocolVersion LatestEncoding
              = Some (l0, new_Buffer\<lparr>written := MsgVersion_layout ?msg\<rparr>, None)"
    using MsgVersion_BtcEncode_emits [OF assms(1) b(1), of ?msg protocolVersion LatestEncoding] b(2)
    by (auto simp: emits_def MsgVersion_Message_def)
  have c: "length (Command (MsgVersion_Message ?msg)) \<le> 12"
    by (simp add: MsgVersion_Message_def CmdVersion_def)
  have w0: "written (new_Buffer\<lparr>written := MsgVersion_layout ?msg\<rparr>) = MsgVersion_layout ?msg"
    by simp
  obtain l1 conn1 where v: "pool_ok l1" "budget conn1 = None"
    "WriteMessageWithEncodingN (DoubleHashB world) l conn (MsgVersion_Message ?msg)
       protocolVersion network LatestEncoding = Some (l1, conn1, None)"
    using WriteMessageWithEncodingN_emits [where H = "DoubleHashB world" and btcnet = network,
        OF c e l0 h4 w0 assms(5)] assms(5)
    by (auto simp: emits_def)
  have e2: "BtcEncode MsgVerAck_Message l1 new_Buffer protocolVersion LatestEncoding = Some (l1, new_Buffer, None)"
    by (simp add: MsgVerAck_Message_def MsgVerAck_BtcEncode_def)
  have c2: "length (Command MsgVerAck_Message) \<le> 12"
    by (simp add: MsgVerAck_Message_def CmdVerAck_def)
  obtain l2 conn2 where a: "pool_ok l2"
    "WriteMessageWithEncodingN (DoubleHashB world) l1 conn1 MsgVerAck_Message
       protocolVersion network LatestEncoding = Some (l2, conn2, None)"
    using WriteMessageWithEncodingN_emits [where H = "DoubleHashB world" and btcnet = network,
        OF c2 e2 v(1) h4 b(2) v(2)]
    by (auto simp: emits_def)
  show ?thesis
    using assms(3,4,6,7,8) v a
    by (simp add: handshake_def)
qed

lemma match_example: "MatchString pattern ''127.0.0.1:18555''"
  using shape_matches [of "''127''" "''0''" "''0''" "''1''" "''18555''"]
  by (simp add: octet_shape_def port_shape_def is_digit_def)

lemma string_of_nat_3: "string_of_nat 3 = ''3''"
  by code_simp


section \<open>Claims about the handshake\<close>

text \<open>
  C2. An attempt on \<open>127.0.0.1:18555\<close> in a world where the dial succeeds and setting the write
  deadline fails: the attempt returns the error after the calls \<open>Dial\<close> and
  \<open>SetWriteDeadline\<close> only. The connection it opened is never closed.
\<close>

theorem handshake_deadline_failure_leaves_stream_open:
  "handshake world_deadline_fails [] ''127.0.0.1:18555'' 0x12141c16 70016
     = Some (Inl (LibError ''use of closed network connection''),
             [Dialed ''127.0.0.1:18555'', DeadlineSet], [])
   \<and> Closed \<notin> set [Dialed ''127.0.0.1:18555'', DeadlineSet]"
  using match_example
  by (simp add: handshake_def world_deadline_fails_def world_ok_def)

text \<open>
  The other failures after the dial do close the connection: when the deadline was set, an
  attempt that returns an error has made the calls \<open>Dial\<close>, \<open>SetWriteDeadline\<close>, \<open>Close\<close>.
\<close>

lemma handshake_later_failures_close:
  assumes "pool_ok l" and "\<And>x. length (DoubleHashB world x) = 32"
    and "MatchString pattern peerAddress"
    and "Dial world peerAddress = Inr conn"
    and "SetWriteDeadline world = None"
    and "handshake world l peerAddress network protocolVersion = Some (Inl err, calls, l')"
  shows "calls = [Dialed peerAddress, DeadlineSet, Closed]"
  using handshake_outcomes [OF assms(1,2), of peerAddress network protocolVersion] assms(3,4,5,6)
  by auto

text \<open>
  C7. For every address that does not have the shape of four groups of one to three decimal
  digits separated by dots, then a colon, then one or more decimal digits, the pattern does not
  match, and the attempt returns the error \<open>incorrect peer address format\<close> and makes no call
  at all: no dial, no deadline, no close, and with no connection opened there is no stream it
  could write to. The free list is untouched.
\<close>

theorem handshake_rejects_malformed_address:
  assumes "\<not> address_shape peerAddress"
  shows "\<not> MatchString pattern peerAddress
       \<and> handshake world l peerAddress network protocolVersion
           = Some (Inl (ErrorString ''incorrect peer address format''), [], l)"
  using assms by (simp add: handshake_def MatchString_pattern_iff)

theorem handshake_rejects_malformed_address_witness:
  "\<not> address_shape ''localhost:18555''
   \<and> \<not> MatchString pattern ''localhost:18555''
   \<and> handshake world_ok [] ''localhost:18555'' 0x12141c16 70016
       = Some (Inl (ErrorString ''incorrect peer address format''), [], [])"
proof -
  have "\<not> MatchString pattern ''localhost:18555''"
    by (simp add: MatchString_def pattern_def Digit_def Lit_def Plus_def Quest_def is_digit_def Repeat_upto_2)
  then have n: "\<not> address_shape ''localhost:18555''"
    by (simp add: MatchString_pattern_iff)
  show ?thesis
    using n handshake_rejects_malformed_address [OF n, of world_ok "[]" "0x12141c16" 70016]
    by simp
qed

text \<open>
  C9. Every string made of four groups of one to three decimal digits separated by dots, a
  colon, and one or more decimal digits passes the validation, whatever the value of the groups,
  and the attempt goes on to dial that very string: \<open>Dial\<close> is its first call.
\<close>

theorem handshake_dials_every_digit_pattern:
  assumes "octet_shape a" and "octet_shape b" and "octet_shape c" and "octet_shape d"
    and "port_shape p"
    and "pool_ok l" and "\<And>x. length (DoubleHashB world x) = 32"
  shows "MatchString pattern (a @ ''.'' @ b @ ''.'' @ c @ ''.'' @ d @ '':'' @ p)
       \<and> (\<exists>res calls l'.
             handshake world l (a @ ''.'' @ b @ ''.'' @ c @ ''.'' @ d @ '':'' @ p) network protocolVersion
               = Some (res, Dialed (a @ ''.'' @ b @ ''.'' @ c @ ''.'' @ d @ '':'' @ p) # calls, l'))"
proof -
  let ?addr = "a @ ''.'' @ b @ ''.'' @ c @ ''.'' @ d @ '':'' @ p"
  have m: "MatchString pattern ?addr"
    by (rule shape_matches [OF assms(1-5)])
  obtain res calls l' where h: "handshake world l ?addr network protocolVersion = Some (res, calls, l')"
    and o: "case Dial world ?addr of
              Inl err \<Rightarrow> res = Inl err \<and> calls = [Dialed ?addr]
            | Inr conn \<Rightarrow>
               (case SetWriteDeadline world of
                  Some err \<Rightarrow> res = Inl err \<and> calls = [Dialed ?addr, DeadlineSet]
                | None \<Rightarrow>
                   (\<exists>err. res = Inl err \<and> calls = [Dialed ?addr, DeadlineSet, Closed])
                   \<or> (\<exists>c. res = Inr c \<and> calls = [Dialed ?addr, DeadlineSet]))"
    using handshake_outcomes [OF assms(6,7), of ?addr network protocolVersion] m by auto
  have "\<exists>cs. calls = Dialed ?addr # cs"
    using o by (auto split: sum.splits option.splits)
  then show ?thesis
    using m h by auto
qed

theorem handshake_dials_every_digit_pattern_witness:
  "octet_shape ''999'' \<and> port_shape ''1'' \<and> pool_ok [] \<and> (\<forall>x. length (DoubleHashB world_refused x) = 32)
   \<and> MatchString pattern ''999.999.999.999:1''
   \<and> (\<exists>res calls l'.
         handshake world_refused [] ''999.999.999.999:1'' 0x12141c16 70016
           = Some (res, Dialed ''999.999.999.999:1'' # calls, l'))"
proof -
  have a: "octet_shape ''999''"
    by (simp add: octet_shape_def is_digit_def)
  have p: "port_shape ''1''"
    by (simp add: port_shape_def is_digit_def)
  have l: "pool_ok []"
    by (simp add: pool_ok_def)
  have h: "length (DoubleHashB world_refused x) = 32" for x
    by (simp add: world_refused_def world_ok_def example_hash_def)
  show ?thesis
    using a p l h handshake_dials_every_digit_pattern [OF a a a a p l h, of "0x12141c16" 70016]
    by simp
qed



lemma Handshake_loop_fail:
  assumes "i < HandshakeRetries" and "handshake (worlds i) l a n p = Some (Inl e, cs, l1)"
  shows "Handshake_loop worlds a n p i err calls l
           = Handshake_loop worlds a n p (Suc i) (Some e) (calls @ cs @ [Printed (Error e)]) l1"
  using assms by (subst Handshake_loop.simps) simp

lemma Handshake_loop_ok:
  assumes "i < HandshakeRetries" and "handshake (worlds i) l a n p = Some (Inr c, cs, l1)"
  shows "Handshake_loop worlds a n p i err calls l = Some (Inr c, calls @ cs, l1)"
  using assms by (subst Handshake_loop.simps) simp

lemma Handshake_loop_end:
  "Handshake_loop worlds a n p (Suc (Suc (Suc 0))) (Some e) calls l
     = Some (Inl (ErrorString (''handshake failed after 3 retries with the error '' @ Error e)), calls, l)"
  by (subst Handshake_loop.simps) (simp add: HandshakeRetries_def string_of_nat_3)

text \<open>
  C8. \<open>Handshake\<close> runs one attempt after the other, each from scratch in the world it finds,
  and stops at the first attempt that succeeds, returning its connection; an attempt that fails
  has its error printed and is followed by the next one. When the third attempt fails too,
  no fourth is made: \<open>Handshake\<close> returns an error whose message gives the number 3 and the
  message of the third attempt's error.
\<close>

theorem Handshake_retries:
  "(handshake (worlds 0) l a n p = Some (Inr c, cs0, l1)
      \<longrightarrow> Handshake worlds l a n p = Some (Inr c, cs0, l1))
   \<and> (handshake (worlds 0) l a n p = Some (Inl e0, cs0, l1)
        \<and> handshake (worlds 1) l1 a n p = Some (Inr c, cs1, l2)
      \<longrightarrow> Handshake worlds l a n p = Some (Inr c, cs0 @ [Printed (Error e0)] @ cs1, l2))
   \<and> (handshake (worlds 0) l a n p = Some (Inl e0, cs0, l1)
        \<and> handshake (worlds 1) l1 a n p = Some (Inl e1, cs1, l2)
        \<and> handshake (worlds 2) l2 a n p = Some (Inr c, cs2, l3)
      \<longrightarrow> Handshake worlds l a n p
            = Some (Inr c, cs0 @ [Printed (Error e0)] @ cs1 @ [Printed (Error e1)] @ cs2, l3))
   \<and> (handshake (worlds 0) l a n p = Some (Inl e0, cs0, l1)
        \<and> handshake (worlds 1) l1 a n p = Some (Inl e1, cs1, l2)
        \<and> handshake (worlds 2) l2 a n p = Some (Inl e2, cs2, l3)
      \<longrightarrow> Handshake worlds l a n p
            = Some (Inl (ErrorString (''handshake failed after 3 retries with the error '' @ Error e2)),
                    cs0 @ [Printed (Error e0)] @ cs1 @ [Printed (Error e1)] @ cs2 @ [Printed (Error e2)], l3))"
proof -
  have i: "0 < HandshakeRetries" "Suc 0 < HandshakeRetries" "Suc (Suc 0) < HandshakeRetries"
    by (simp_all add: HandshakeRetries_def)
  have n: "(1::nat) = Suc 0" "(2::nat) = Suc (Suc 0)"
    by simp_all
  show ?thesis
    unfolding Handshake_def n
  proof (intro conjI impI; (elim conjE)?)
    assume a: "handshake (worlds 0) l a n p = Some (Inr c, cs0, l1)"
    show "Handshake_loop worlds a n p 0 None [] l = Some (Inr c, cs0, l1)"
      using Handshake_loop_ok [where worlds = worlds and i = 0, OF i(1) a] by simp
  next
    assume a: "handshake (worlds 0) l a n p = Some (Inl e0, cs0, l1)"
      and b: "handshake (worlds (Suc 0)) l1 a n p = Some (Inr c, cs1, l2)"
    show "Handshake_loop worlds a n p 0 None [] l = Some (Inr c, cs0 @ [Printed (Error e0)] @ cs1, l2)"
      using Handshake_loop_fail [where worlds = worlds and i = 0, OF i(1) a] Handshake_loop_ok [where worlds = worlds and i = "Suc 0", OF i(2) b] by simp
  next
    assume a: "handshake (worlds 0) l a n p = Some (Inl e0, cs0, l1)"
      and b: "handshake (worlds (Suc 0)) l1 a n p = Some (Inl e1, cs1, l2)"
      and c: "handshake (worlds (Suc (Suc 0))) l2 a n p = Some (Inr c, cs2, l3)"
    show "Handshake_loop worlds a n p 0 None [] l
            = Some (Inr c, cs0 @ [Printed (Error e0)] @ cs1 @ [Printed (Error e1)] @ cs2, l3)"
      using Handshake_loop_fail [where worlds = worlds and i = 0, OF i(1) a] Handshake_loop_fail [where worlds = worlds and i = "Suc 0", OF i(2) b] Handshake_loop_ok [where worlds = worlds and i = "Suc (Suc 0)", OF i(3) c]
      by simp
  next
    assume a: "handshake (worlds 0) l a n p = Some (Inl e0, cs0, l1)"
      and b: "handshake (worlds (Suc 0)) l1 a n p = Some (Inl e1, cs1, l2)"
      and c: "handshake (worlds (Suc (Suc 0))) l2 a n p = Some (Inl e2, cs2, l3)"
    show "Handshake_loop worlds a n p 0 None [] l
            = Some (Inl (ErrorString (''handshake failed after 3 retries with the error '' @ Error e2)),
                    cs0 @ [Printed (Error e0)] @ cs1 @ [Printed (Error e1)] @ cs2 @ [Printed (Error e2)], l3)"
      using Handshake_loop_fail [where worlds = worlds and i = 0, OF i(1) a] Handshake_loop_fail [where worlds = worlds and i = "Suc 0", OF i(2) b] Handshake_loop_fail [where worlds = worlds and i = "Suc (Suc 0)", OF i(3) c]
        Handshake_loop_end
      by simp
  qed
qed

theorem Handshake_retries_witness:
  "handshake (worlds_refused 0) [] ''127.0.0.1:123'' 0x12141c16 70016
     = Some (Inl (LibError ''connect: connection refused''), [Dialed ''127.0.0.1:123''], [])
   \<and> Handshake worlds_refused [] ''127.0.0.1:123'' 0x12141c16 70016
     = Some (Inl (ErrorString ''handshake failed after 3 retries with the error connect: connection refused''),
             [Dialed ''127.0.0.1:123'', Printed ''connect: connection refused'',
              Dialed ''127.0.0.1:123'', Printed ''connect: connection refused'',
              Dialed ''127.0.0.1:123'', Printed ''connect: connection refused''], [])
   \<and> (\<exists>c l'. handshake (worlds_second_ok 1) [] ''127.0.0.1:18555'' 0x12141c16 70016
                 = Some (Inr c, [Dialed ''127.0.0.1:18555'', DeadlineSet], l')
             \<and> Handshake worlds_second_ok [] ''127.0.0.1:18555'' 0x12141c16 70016
                 = Some (Inr c, [Dialed ''127.0.0.1:18555'', Printed ''connect: connection refused'',
                                 Dialed ''127.0.0.1:18555'', DeadlineSet], l'))"
proof -
  have m: "MatchString pattern ''127.0.0.1:123''"
    using shape_matches [of "''127''" "''0''" "''0''" "''1''" "''123''"]
    by (simp add: octet_shape_def port_shape_def is_digit_def)
  have r: "handshake (worlds_refused i) [] ''127.0.0.1:123'' 0x12141c16 70016
     = Some (Inl (LibError ''connect: connection refused''), [Dialed ''127.0.0.1:123''], [])" for i
    using m by (simp add: handshake_def worlds_refused_def world_refused_def world_ok_def)
  have fail: "Handshake worlds_refused [] ''127.0.0.1:123'' 0x12141c16 70016
     = Some (Inl (ErrorString ''handshake failed after 3 retries with the error connect: connection refused''),
             [Dialed ''127.0.0.1:123'', Printed ''connect: connection refused'',
              Dialed ''127.0.0.1:123'', Printed ''connect: connection refused'',
              Dialed ''127.0.0.1:123'', Printed ''connect: connection refused''], [])"
    using Handshake_retries [of worlds_refused "[]" "''127.0.0.1:123''" "0x12141c16" 70016
        undefined "[Dialed ''127.0.0.1:123'']" "[]" "LibError ''connect: connection refused''"
        "[Dialed ''127.0.0.1:123'']" "[]" "LibError ''connect: connection refused''"
        "[Dialed ''127.0.0.1:123'']" "[]" "LibError ''connect: connection refused''"]
      r [of 0] r [of 1] r [of 2]
    by simp
  have r0: "handshake (worlds_second_ok 0) [] ''127.0.0.1:18555'' 0x12141c16 70016
     = Some (Inl (LibError ''connect: connection refused''), [Dialed ''127.0.0.1:18555''], [])"
    using match_example by (simp add: handshake_def worlds_second_ok_def world_refused_def world_ok_def)
  have p: "pool_ok []"
    by (simp add: pool_ok_def)
  have w1: "worlds_second_ok 1 = world_ok"
    by (simp add: worlds_second_ok_def)
  obtain c l' where r1: "handshake (worlds_second_ok 1) [] ''127.0.0.1:18555'' 0x12141c16 70016
       = Some (Inr c, [Dialed ''127.0.0.1:18555'', DeadlineSet], l')"
    unfolding w1
    using handshake_success [of "[]" world_ok "''127.0.0.1:18555''"
        "\<lparr>written = [], budget = None, fault = LibError ''write: i/o timeout''\<rparr>"
        "''127.0.0.1''" "''18555''" 18555 "0x12141c16" 70016, OF p _ match_example]
    by (auto simp: world_ok_def example_hash_def)
  have "Handshake worlds_second_ok [] ''127.0.0.1:18555'' 0x12141c16 70016
                 = Some (Inr c, [Dialed ''127.0.0.1:18555'', Printed ''connect: connection refused'',
                                 Dialed ''127.0.0.1:18555'', DeadlineSet], l')"
    using Handshake_retries [of worlds_second_ok "[]" "''127.0.0.1:18555''" "0x12141c16" 70016
        c "[Dialed ''127.0.0.1:18555'']" "[]" "LibError ''connect: connection refused''"
        "[Dialed ''127.0.0.1:18555'', DeadlineSet]" l'] r0 r1
    by simp
  then show ?thesis
    using r [of 0] fail r1 by blast
qed

section \<open>Claims about the wait for the peer's verack\<close>

lemma reader_loop_skips:
  "list_all skipped pre \<Longrightarrow> reader_loop t (pre @ reads) = reader_loop (t + elapsed pre) reads"
proof (induction pre arbitrary: t)
  case Nil
  then show ?case by (simp add: elapsed_def)
next
  case (Cons rd pre)
  obtain d remoteMsg err where rd: "rd = (d, remoteMsg, err)"
    by (cases rd) auto
  from Cons.prems have s: "skipped rd" and rest: "list_all skipped pre"
    by simp_all
  have "reader_loop t ((rd # pre) @ reads) = reader_loop (t + d) (pre @ reads)"
    using s unfolding rd by (auto simp: skipped_def)
  also have "\<dots> = reader_loop (t + d + elapsed pre) reads"
    by (rule Cons.IH [OF rest])
  finally show ?case
    by (simp add: rd elapsed_def add.assoc)
qed

lemma reader_loop_all_skipped: "list_all skipped reads \<Longrightarrow> reader_loop t reads = None"
  using reader_loop_skips [of reads t "[]"] by simp

text \<open>
  C3. The wait loop passes over every unknown-command frame and every \<open>sendaddrv2\<close> message and
  reads on. The first read that is neither of the two ends the wait when it returns within
  the second: a \<open>verack\<close> message with success (a nil error), any other recognised message
  with \<open>ErrInvalidHandshake\<close>, a read error with that error. When the reads never produce
  such a frame (the reader blocks for ever after the last skipped frame), or produce it only
  after the second has passed, the call returns the timeout error: it always returns.
\<close>

theorem WaitToFinishNegotiation_classifies:
  assumes "list_all skipped pre"
  shows "(elapsed pre + d < Second \<longrightarrow>
            WaitToFinishNegotiation pick (pre @ (d, Some MsgVerAck, None) # rest) = None
          \<and> WaitToFinishNegotiation pick (pre @ (d, Some (MsgOther cmd), None) # rest) = Some ErrInvalidHandshake
          \<and> (e \<noteq> ErrUnknownMessage \<longrightarrow>
               WaitToFinishNegotiation pick (pre @ (d, remoteMsg, Some e) # rest) = Some e))
       \<and> WaitToFinishNegotiation pick pre = Some timeout_error
       \<and> WaitToFinishNegotiation pick (pre @ [(d, remoteMsg, Some ErrUnknownMessage)]) = Some timeout_error
       \<and> WaitToFinishNegotiation pick (pre @ [(d, Some MsgSendAddrV2, None)]) = Some timeout_error
       \<and> (Second < elapsed pre + d \<longrightarrow>
            WaitToFinishNegotiation pick (pre @ (d, Some MsgVerAck, None) # rest) = Some timeout_error
          \<and> WaitToFinishNegotiation pick (pre @ (d, Some (MsgOther cmd), None) # rest) = Some timeout_error
          \<and> (e \<noteq> ErrUnknownMessage \<longrightarrow>
               WaitToFinishNegotiation pick (pre @ (d, remoteMsg, Some e) # rest) = Some timeout_error))"
proof -
  have skip: "reader_loop 0 (pre @ reads) = reader_loop (elapsed pre) reads" for reads
    using reader_loop_skips [OF assms, of 0 reads] by simp
  have none: "reader_loop 0 pre = None"
    by (rule reader_loop_all_skipped [OF assms])
  show ?thesis
    by (simp add: WaitToFinishNegotiation_def skip none timeout_error_def)
qed

theorem WaitToFinishNegotiation_classifies_witness:
  "list_all skipped [(100000000, None, Some ErrUnknownMessage), (200000000, Some MsgSendAddrV2, None)]
   \<and> elapsed [(100000000, None, Some ErrUnknownMessage), (200000000, Some MsgSendAddrV2, None)] + 300000000 < Second
   \<and> WaitToFinishNegotiation True
        [(100000000, None, Some ErrUnknownMessage), (200000000, Some MsgSendAddrV2, None),
         (300000000, Some MsgVerAck, None)] = None
   \<and> WaitToFinishNegotiation True
        [(100000000, None, Some ErrUnknownMessage), (200000000, Some MsgSendAddrV2, None),
         (300000000, Some (MsgOther ''getdata''), None)] = Some ErrInvalidHandshake
   \<and> WaitToFinishNegotiation True
        [(100000000, None, Some ErrUnknownMessage), (200000000, Some MsgSendAddrV2, None),
         (300000000, None, Some EOF)] = Some EOF
   \<and> WaitToFinishNegotiation True
        [(100000000, None, Some ErrUnknownMessage), (200000000, Some MsgSendAddrV2, None)]
       = Some (ErrorString ''ack message not received in time'')
   \<and> Second < elapsed [(100000000, None, Some ErrUnknownMessage), (200000000, Some MsgSendAddrV2, None)] + 800000000
   \<and> WaitToFinishNegotiation True
        [(100000000, None, Some ErrUnknownMessage), (200000000, Some MsgSendAddrV2, None),
         (800000000, Some MsgVerAck, None)] = Some (ErrorString ''ack message not received in time'')"
proof -
  let ?pre = "[(100000000, None, Some ErrUnknownMessage), (200000000, Some MsgSendAddrV2, None)] :: read list"
  have s: "list_all skipped ?pre"
    by (simp add: skipped_def)
  have t: "elapsed ?pre + 300000000 < Second" "Second < elapsed ?pre + 800000000"
    by (simp_all add: elapsed_def Second_def)
  show ?thesis
    using s t
      WaitToFinishNegotiation_classifies [OF s, of 300000000 True "[]" "''getdata''" EOF None]
      WaitToFinishNegotiation_classifies [OF s, of 800000000 True "[]" "''getdata''" EOF None]
    by (simp add: timeout_error_def)
qed


end
